theory Spec2Isabelle
  imports Main "HOL-Library.Char_ord" "HOL-Library.List_Lexorder"
begin

section \<open>Python values used by the sources\<close>

text \<open>
  Strings are \<^typ>\<open>string\<close>; their order (used by Python's \<^verbatim>\<open>sorted\<close>) is the
  lexicographic order on character codes.  A Python \<^verbatim>\<open>dict\<close> keeps insertion
  order, so it is an association list; a Python \<^verbatim>\<open>set\<close> of strings is a list
  without duplicates, built with \<^const>\<open>List.insert\<close> and read through
  \<^const>\<open>sort\<close> or \<^const>\<open>set\<close>.  A character is a code point below 256; of these,
  \<^verbatim>\<open>str.strip\<close> and \<^verbatim>\<open>str.rstrip\<close> without an argument remove the twelve for which
  \<^verbatim>\<open>str.isspace\<close> holds: the space, the five controls from the tab to the carriage
  return, the four separators from 28 to 31, the next-line control 133 and the
  no-break space 160.
\<close>

fun py_join :: "string \<Rightarrow> string list \<Rightarrow> string" where
  "py_join sep [] = []"
| "py_join sep [x] = x"
| "py_join sep (x # y # ys) = x @ sep @ py_join sep (y # ys)"

definition py_whitespace :: "char \<Rightarrow> bool" where
  "py_whitespace c = (c \<in> set [CHR '' '', CHR 0x09, CHR 0x0A, CHR 0x0B, CHR 0x0C, CHR 0x0D,
                                 CHR 0x1C, CHR 0x1D, CHR 0x1E, CHR 0x1F, CHR 0x85, CHR 0xA0])"

definition py_lstrip :: "string \<Rightarrow> string" where
  "py_lstrip s = dropWhile py_whitespace s"

definition py_rstrip :: "string \<Rightarrow> string" where
  "py_rstrip s = rev (dropWhile py_whitespace (rev s))"

definition py_strip :: "string \<Rightarrow> string" where
  "py_strip s = py_rstrip (py_lstrip s)"

definition py_startswith :: "string \<Rightarrow> string \<Rightarrow> bool" where
  "py_startswith s p = (take (length p) s = p)"

definition py_endswith :: "string \<Rightarrow> string \<Rightarrow> bool" where
  "py_endswith s p = (length p \<le> length s \<and> drop (length s - length p) s = p)"

definition py_str_bool :: "bool \<Rightarrow> string" where
  "py_str_bool b = (if b then ''True'' else ''False'')"

definition digit_char :: "nat \<Rightarrow> char" where
  "digit_char d = char_of (48 + d)"

fun py_str_nat :: "nat \<Rightarrow> string" where
  "py_str_nat n = (if n < 10 then [digit_char n] else py_str_nat (n div 10) @ [digit_char (n mod 10)])"

declare py_str_nat.simps [simp del]

text \<open>\<^verbatim>\<open>d[k] = v\<close> on a dict: an existing key keeps its position.\<close>

fun dict_set :: "'k \<Rightarrow> 'v \<Rightarrow> ('k \<times> 'v) list \<Rightarrow> ('k \<times> 'v) list" where
  "dict_set k v [] = [(k, v)]"
| "dict_set k v ((k', v') # kvs) = (if k' = k then (k, v) # kvs else (k', v') # dict_set k v kvs)"

section \<open>Authorization methods (webapp/vos_data.py)\<close>

text \<open>
  The class hierarchy \<^verbatim>\<open>AuthMethod\<close>, \<^verbatim>\<open>NullAuth\<close>, \<^verbatim>\<open>PublicAuth\<close>,
  \<^verbatim>\<open>DNAuth\<close>, \<^verbatim>\<open>FQANAuth\<close>, \<^verbatim>\<open>SciTokenAuth\<close> is a closed variant; the
  fields have the types of the constructors' annotations, but for
  \<^verbatim>\<open>restricted_path\<close>: the parser stores there whatever value the YAML holds, so it
  is a dynamically typed value (null, a string or a boolean), with its truth value and
  its \<^verbatim>\<open>str\<close>.  The class attributes \<^verbatim>\<open>is_public\<close>, \<^verbatim>\<open>used_in_authfile\<close> and
  \<^verbatim>\<open>used_in_scitokens_conf\<close> are functions of the variant.
\<close>

datatype attr_value = AttrNull | AttrStr string | AttrBool bool

fun truthy_attr :: "attr_value \<Rightarrow> bool" where
  "truthy_attr AttrNull = False"
| "truthy_attr (AttrStr s) = (s \<noteq> [])"
| "truthy_attr (AttrBool b) = b"

fun py_str_attr :: "attr_value \<Rightarrow> string" where
  "py_str_attr AttrNull = ''None''"
| "py_str_attr (AttrStr s) = s"
| "py_str_attr (AttrBool b) = py_str_bool b"

datatype auth_method =
    NullAuth
  | PublicAuth
  | DNAuth (dn: string)
  | FQANAuth (fqan: string)
  | SciTokenAuth (issuer: string) (base_path: string) (restricted_path: attr_value)
      (map_subject: bool)

fun auth_is_public :: "auth_method \<Rightarrow> bool" where
  "auth_is_public PublicAuth = True"
| "auth_is_public _ = False"

fun used_in_authfile :: "auth_method \<Rightarrow> bool" where
  "used_in_authfile PublicAuth = True"
| "used_in_authfile (DNAuth _) = True"
| "used_in_authfile (FQANAuth _) = True"
| "used_in_authfile _ = False"

fun used_in_scitokens_conf :: "auth_method \<Rightarrow> bool" where
  "used_in_scitokens_conf (SciTokenAuth _ _ _ _) = True"
| "used_in_scitokens_conf _ = False"

text \<open>
  The names of the two XRootD services are constants of \<^verbatim>\<open>webapp.common\<close>, which is
  not among the sources; they are kept abstract as two distinct constructors, and
  \<open>OtherService s\<close> is any service name different from both.
\<close>

datatype service_name = XROOTD_CACHE_SERVER | XROOTD_ORIGIN_SERVER | OtherService string

datatype error =
    ResourceNotRegistered string
  | ResourceMissingService string service_name
  | DataError string
  | ValueError string
  | TypeError string
  | KeyError string
  | AttributeError string

text \<open>
  \<^verbatim>\<open>generate_dn_hash\<close> comes from \<^verbatim>\<open>webapp.x509\<close>, which is not among the sources:
  it is the parameter \<open>H\<close>, and \<open>None\<close> is the value the module gives it when the
  import of \<^verbatim>\<open>x509\<close> fails.  Calling it then is Python's
  \<^verbatim>\<open>TypeError: 'NoneType' object is not callable\<close>.
\<close>

type_synonym dn_hash = "(string \<Rightarrow> string) option"

fun get_dn_hash :: "dn_hash \<Rightarrow> string \<Rightarrow> error + string" where
  "get_dn_hash None d = Inl (TypeError ''NoneType object is not callable'')"
| "get_dn_hash (Some h) d = Inr (h d)"

fun get_authfile_id :: "dn_hash \<Rightarrow> auth_method \<Rightarrow> error + string" where
  "get_authfile_id H PublicAuth = Inr ''u *''"
| "get_authfile_id H (DNAuth d) =
     (case get_dn_hash H d of Inl e \<Rightarrow> Inl e | Inr h \<Rightarrow> Inr (''u '' @ h))"
| "get_authfile_id H (FQANAuth f) = Inr (''g '' @ f)"
| "get_authfile_id H _ = Inr ''''"

text \<open>
  \<^verbatim>\<open>str(authz)\<close>.  \<^verbatim>\<open>NullAuth\<close> defines no \<^verbatim>\<open>__str__\<close>: Python prints the
  default object representation, which holds a memory address; the generators only
  print entries with \<^verbatim>\<open>used_in_authfile\<close>, which \<^verbatim>\<open>NullAuth\<close> never has.
\<close>

fun auth_str :: "auth_method \<Rightarrow> string" where
  "auth_str PublicAuth = ''PUBLIC''"
| "auth_str (DNAuth d) = ''DN: '' @ d"
| "auth_str (FQANAuth f) = ''FQAN: '' @ f"
| "auth_str (SciTokenAuth i b r m) =
     ''SciToken: issuer='' @ i @ '' base_path='' @ b @ '' restricted_path=''
       @ py_str_attr r @ '' map_subject='' @ py_str_bool m"
| "auth_str NullAuth = ''<webapp.vos_data.NullAuth object>''"

fun get_scitokens_conf_block :: "auth_method \<Rightarrow> service_name \<Rightarrow> error + string" where
  "get_scitokens_conf_block (SciTokenAuth i b r m) service =
     (if service \<notin> set [XROOTD_CACHE_SERVER, XROOTD_ORIGIN_SERVER]
      then Inl (ValueError ''service_name must be the cache or the origin service'')
      else Inr (''[Issuer '' @ i @ '']'' @ [CHR 0x0A]
                @ ''issuer = '' @ i @ [CHR 0x0A]
                @ ''base_path = '' @ b @ [CHR 0x0A]
                @ (if truthy_attr r then ''restricted_path = '' @ py_str_attr r @ [CHR 0x0A] else '''')
                @ (if service = XROOTD_ORIGIN_SERVER
                   then ''map_subject = '' @ py_str_bool m @ [CHR 0x0A] else '''')))"
| "get_scitokens_conf_block _ service = Inr ''''"

section \<open>Parsing authorization items (webapp/vos_data.py)\<close>

text \<open>
  An item of an \<^verbatim>\<open>Authorizations\<close> list is a string or a mapping
  (\<^verbatim>\<open>Union[str, Dict]\<close>); \<open>AuthzOther\<close> is any other YAML value.  A mapping is the
  list of its entries in order, each entry being its key with the value the key's
  branch of \<^verbatim>\<open>_parse_authz_dict\<close> expects: a string or null under \<^verbatim>\<open>FQAN\<close> and
  \<^verbatim>\<open>DN\<close>, a mapping of attributes under \<^verbatim>\<open>SciTokens\<close> (\<open>None\<close> when the value is
  not a mapping or is an empty one).  Of the attributes, \<^verbatim>\<open>Issuer\<close> and
  \<^verbatim>\<open>Base Path\<close> are strings (\<open>None\<close>: missing or null); the two attributes whose type
  the parser checks are dynamically typed values (\<open>None\<close>: missing).  The last three
  fields are the spellings without a space, which only the parser of
  \<^verbatim>\<open>webapp/data_federation.py\<close> reads; for \<^verbatim>\<open>BasePath\<close>, \<open>None\<close> is a missing key
  and \<open>Some None\<close> a null.
\<close>

record scitokens_attributes =
  attr_Issuer :: "string option"
  attr_Base_Path :: "string option"
  attr_Restricted_Path :: "attr_value option"
  attr_Map_Subject :: "attr_value option"
  attr_BasePath :: "string option option"
  attr_RestrictedPath :: "attr_value option"
  attr_MapSubject :: "attr_value option"

datatype authz_entry =
    EntrySciTokens "scitokens_attributes option"
  | EntryFQAN "string option"
  | EntryDN "string option"
  | EntryOther string

datatype authz_item =
    AuthzStr string
  | AuthzDict "authz_entry list"
  | AuthzOther

text \<open>
  The error messages interpolate \<^verbatim>\<open>{authz}\<close>.  For a string that is the string; for a
  mapping it is the interpreter's rendering of a \<^verbatim>\<open>dict\<close>, taken as the parameter
  \<open>fmt\<close>.
\<close>

definition authz_text :: "(authz_item \<Rightarrow> string) \<Rightarrow> authz_item \<Rightarrow> string" where
  "authz_text fmt authz = (case authz of AuthzStr s \<Rightarrow> s | _ \<Rightarrow> fmt authz)"

definition truthy_str :: "string option \<Rightarrow> bool" where
  "truthy_str v = (case v of None \<Rightarrow> False | Some s \<Rightarrow> s \<noteq> [])"

fun is_attr_str :: "attr_value \<Rightarrow> bool" where
  "is_attr_str (AttrStr s) = True"
| "is_attr_str _ = False"

fun is_attr_bool :: "attr_value \<Rightarrow> bool" where
  "is_attr_bool (AttrBool b) = True"
| "is_attr_bool _ = False"

text \<open>
  In \<^verbatim>\<open>_parse_authz_scitokens\<close> a falsy \<^verbatim>\<open>Restricted Path\<close> that is not a string
  (null, \<^verbatim>\<open>False\<close>) passes the check and is stored as it is.
\<close>

definition parse_authz_scitokens ::
  "scitokens_attributes \<Rightarrow> string \<Rightarrow> auth_method \<times> string option" where
  "parse_authz_scitokens attributes authz =
     (let issuer = attr_Issuer attributes;
          errors1 = (if \<not> truthy_str issuer then '''Issuer' missing or empty; '' else '''');
          base_path = attr_Base_Path attributes;
          errors2 = (if \<not> truthy_str base_path
                     then errors1 @ '''Base Path' missing or empty; '' else errors1);
          restricted_path =
            (case attr_Restricted_Path attributes of None \<Rightarrow> AttrNull | Some v \<Rightarrow> v);
          errors3 = (if truthy_attr restricted_path \<and> \<not> is_attr_str restricted_path
                     then errors2 @ '''Restricted Path' not a string; '' else errors2);
          map_subject =
            (case attr_Map_Subject attributes of None \<Rightarrow> AttrBool False | Some v \<Rightarrow> v);
          errors4 = (if \<not> is_attr_bool map_subject
                     then errors3 @ '''Map Subject' not a boolean; '' else errors3)
      in if errors4 \<noteq> [] then
           (NullAuth, Some (''Invalid SciTokens auth '' @ authz @ '': ''
                              @ take (length errors4 - 2) errors4))
         else
           (SciTokenAuth (case issuer of Some s \<Rightarrow> s | None \<Rightarrow> [])
              (case base_path of Some s \<Rightarrow> s | None \<Rightarrow> [])
              restricted_path
              (case map_subject of AttrBool b \<Rightarrow> b | _ \<Rightarrow> False), None))"

text \<open>
  \<^verbatim>\<open>_parse_authz_dict\<close> returns from the first entry of the mapping; on an empty mapping
  the loop body never runs and the function returns Python's \<^verbatim>\<open>None\<close>, here \<open>None\<close>.
\<close>

definition parse_authz_dict ::
  "dn_hash \<Rightarrow> authz_entry list \<Rightarrow> string \<Rightarrow> (auth_method \<times> string option) option" where
  "parse_authz_dict H entries authz =
     (case entries of
        [] \<Rightarrow> None
      | EntrySciTokens attributes # _ \<Rightarrow>
          (case attributes of
             None \<Rightarrow> Some (NullAuth, Some (''Invalid SciTokens auth '' @ authz @ '': no attributes''))
           | Some a \<Rightarrow> Some (parse_authz_scitokens a authz))
      | EntryFQAN attributes # _ \<Rightarrow>
          (case attributes of
             Some f \<Rightarrow>
               if f = [] then Some (NullAuth, Some (''Invalid FQAN auth '' @ authz @ '': FQAN missing or empty''))
               else Some (FQANAuth f, None)
           | None \<Rightarrow> Some (NullAuth, Some (''Invalid FQAN auth '' @ authz @ '': FQAN missing or empty'')))
      | EntryDN attributes # _ \<Rightarrow>
          (if H = None
           then Some (NullAuth, Some ('''asn1' library unavailable; cannot handle DN auth '' @ authz))
           else case attributes of
             Some d \<Rightarrow>
               if d = [] then Some (NullAuth, Some (''Invalid DN auth '' @ authz @ '': DN missing or empty''))
               else Some (DNAuth d, None)
           | None \<Rightarrow> Some (NullAuth, Some (''Invalid DN auth '' @ authz @ '': DN missing or empty'')))
      | EntryOther auth_type # _ \<Rightarrow>
          Some (NullAuth, Some (''Unknown auth type '' @ auth_type @ '' in '' @ authz)))"

definition parse_authz_str :: "dn_hash \<Rightarrow> string \<Rightarrow> auth_method \<times> string option" where
  "parse_authz_str H authz =
     (if py_startswith authz ''FQAN:'' then
        (let fqan = py_strip (drop 5 authz)
         in if fqan = [] then (NullAuth, Some (''Invalid FQAN auth '' @ authz @ '': FQAN missing or empty''))
            else (FQANAuth fqan, None))
      else if py_startswith authz ''DN:'' then
        (if H = None
         then (NullAuth, Some ('''asn1' library unavailable; cannot handle DN auth '' @ authz))
         else let dn = py_strip (drop 3 authz)
              in if dn = [] then (NullAuth, Some (''Invalid DN auth '' @ authz @ '': DN missing or empty''))
                 else (DNAuth dn, None))
      else if py_strip authz = ''PUBLIC'' then (PublicAuth, None)
      else (NullAuth, Some (''Unknown authz list entry '' @ authz)))"

definition parse_authz ::
  "dn_hash \<Rightarrow> (authz_item \<Rightarrow> string) \<Rightarrow> authz_item \<Rightarrow> (auth_method \<times> string option) option" where
  "parse_authz H fmt authz =
     (case authz of
        AuthzDict entries \<Rightarrow> parse_authz_dict H entries (authz_text fmt authz)
      | AuthzStr s \<Rightarrow> Some (parse_authz_str H s)
      | AuthzOther \<Rightarrow> Some (NullAuth, Some (''Unknown authz list entry '' @ authz_text fmt authz)))"

section \<open>Namespaces and the per-VO registry\<close>

record namespace =
  path :: string
  vo_name :: string
  allowed_origins :: "string list"
  allowed_caches :: "string list"
  authz_list :: "auth_method list"
  writeback :: "string option"
  dirlist :: "string option"

text \<open>
  \<^verbatim>\<open>Namespace.is_public\<close> of \<^verbatim>\<open>webapp/vos_data.py\<close>, the class the generators of
  \<^verbatim>\<open>stashcache.py\<close> import:
  \<^verbatim>\<open>return self.authz_list and self.authz_list[0].is_public\<close>, read for its truth value.
\<close>

definition is_public :: "'a namespace_scheme \<Rightarrow> bool" where
  "is_public ns = (case authz_list ns of [] \<Rightarrow> False | a # _ \<Rightarrow> auth_is_public a)"

text \<open>
  \<^verbatim>\<open>Namespace.is_public\<close> of \<^verbatim>\<open>webapp/data_federation.py\<close>:
  \<^verbatim>\<open>return any(x for x in self.authz_list if x.is_public)\<close>; the objects are truthy.
\<close>

definition df_is_public :: "'a namespace_scheme \<Rightarrow> bool" where
  "df_is_public ns = list_ex (\<lambda>x. True) (filter auth_is_public (authz_list ns))"

record stashcache =
  sc_vo_name :: string
  namespaces :: "(string \<times> namespace) list"
  errors :: "string list"

text \<open>
  The parsed YAML of one VO's \<^verbatim>\<open>DataFederations/StashCache\<close> block.  In the list
  shape each element carries its own keys (\<open>None\<close>: the key is missing); in the map
  shape \<^verbatim>\<open>Namespaces\<close> maps a path to its list of authorization items.
\<close>

record ns_data =
  ns_Path :: "string option"
  ns_Authorizations :: "authz_item list option"
  ns_AllowedOrigins :: "string list option"
  ns_AllowedCaches :: "string list option"
  ns_Writeback :: "string option"
  ns_DirList :: "string option"

datatype namespaces_yaml =
    NamespacesList "ns_data list"
  | NamespacesDict "(string \<times> authz_item list) list"

record stashcache_yaml =
  yaml_Namespaces :: "namespaces_yaml option"
  yaml_AllowedOrigins :: "string list option"
  yaml_AllowedCaches :: "string list option"

definition get_default :: "'a option \<Rightarrow> 'a \<Rightarrow> 'a" where
  "get_default v d = (case v of None \<Rightarrow> d | Some x \<Rightarrow> x)"

text \<open>
  \<^verbatim>\<open>StashCache.parse_authz_list\<close> of \<^verbatim>\<open>webapp/vos_data.py\<close>.  The set
  \<^verbatim>\<open>self.errors\<close> is passed in and returned.  Unpacking the \<^verbatim>\<open>None\<close> that
  \<^verbatim>\<open>parse_authz\<close> returns for an empty mapping is a \<^verbatim>\<open>TypeError\<close>.
\<close>

fun parse_authz_list_loop ::
  "dn_hash \<Rightarrow> (authz_item \<Rightarrow> string) \<Rightarrow> string \<Rightarrow> authz_item list \<Rightarrow> auth_method list
     \<Rightarrow> string list \<Rightarrow> error + (auth_method list \<times> string list)" where
  "parse_authz_list_loop H fmt p [] al errs = Inr (al, errs)"
| "parse_authz_list_loop H fmt p (authz # rest) al errs =
     (case parse_authz H fmt authz of
        None \<Rightarrow> Inl (TypeError ''cannot unpack non-iterable NoneType object'')
      | Some (parsed_authz, err) \<Rightarrow>
          if truthy_str err then
            parse_authz_list_loop H fmt p rest al
              (List.insert (''Namespace '' @ p @ '': '' @ the err) errs)
          else if auth_is_public parsed_authz then Inr ([parsed_authz], errs)
          else parse_authz_list_loop H fmt p rest (al @ [parsed_authz]) errs)"

definition parse_authz_list ::
  "dn_hash \<Rightarrow> (authz_item \<Rightarrow> string) \<Rightarrow> string \<Rightarrow> authz_item list \<Rightarrow> string list
     \<Rightarrow> error + (auth_method list \<times> string list)" where
  "parse_authz_list H fmt p unparsed_authz_list errs =
     parse_authz_list_loop H fmt p unparsed_authz_list [] errs"

text \<open>\<^verbatim>\<open>StashCache.load_new_yaml\<close>; \<open>idx\<close> is the counter of \<^verbatim>\<open>enumerate\<close>.\<close>

fun load_new_yaml_loop ::
  "dn_hash \<Rightarrow> (authz_item \<Rightarrow> string) \<Rightarrow> nat \<Rightarrow> ns_data list \<Rightarrow> stashcache \<Rightarrow> error + stashcache" where
  "load_new_yaml_loop H fmt idx [] sc = Inr sc"
| "load_new_yaml_loop H fmt idx (d # rest) sc =
     (case ns_Path d of
        None \<Rightarrow>
          load_new_yaml_loop H fmt (Suc idx) rest
            (sc\<lparr>errors := List.insert (''Namespace #'' @ py_str_nat idx @ '': No Path'') (errors sc)\<rparr>)
      | Some p \<Rightarrow>
          (case map_of (namespaces sc) p of
             Some orig \<Rightarrow>
               load_new_yaml_loop H fmt (Suc idx) rest
                 (sc\<lparr>errors := List.insert
                    (''Namespace #'' @ py_str_nat idx @ '': Redefining '' @ p
                       @ ''; original was defined in '' @ vo_name orig) (errors sc)\<rparr>)
           | None \<Rightarrow>
               (case parse_authz_list H fmt p (get_default (ns_Authorizations d) []) (errors sc) of
                  Inl e \<Rightarrow> Inl e
                | Inr (al, errs) \<Rightarrow>
                    load_new_yaml_loop H fmt (Suc idx) rest
                      (sc\<lparr>errors := errs,
                          namespaces := dict_set p
                            \<lparr>path = p, vo_name = sc_vo_name sc,
                             allowed_origins = get_default (ns_AllowedOrigins d) [],
                             allowed_caches = get_default (ns_AllowedCaches d) [],
                             authz_list = al,
                             writeback = ns_Writeback d,
                             dirlist = ns_DirList d\<rparr> (namespaces sc)\<rparr>))))"

definition load_new_yaml ::
  "dn_hash \<Rightarrow> (authz_item \<Rightarrow> string) \<Rightarrow> ns_data list \<Rightarrow> stashcache \<Rightarrow> error + stashcache" where
  "load_new_yaml H fmt decls sc = load_new_yaml_loop H fmt 0 decls sc"

text \<open>\<^verbatim>\<open>StashCache.load_old_yaml\<close>: the lists of origins and caches are those of the VO.\<close>

fun load_old_yaml_loop ::
  "dn_hash \<Rightarrow> (authz_item \<Rightarrow> string) \<Rightarrow> stashcache_yaml \<Rightarrow> (string \<times> authz_item list) list
     \<Rightarrow> stashcache \<Rightarrow> error + stashcache" where
  "load_old_yaml_loop H fmt y [] sc = Inr sc"
| "load_old_yaml_loop H fmt y ((p, unparsed_authz_list) # rest) sc =
     (case parse_authz_list H fmt p unparsed_authz_list (errors sc) of
        Inl e \<Rightarrow> Inl e
      | Inr (al, errs) \<Rightarrow>
          (case map_of (namespaces sc) p of
             Some orig \<Rightarrow>
               load_old_yaml_loop H fmt y rest
                 (sc\<lparr>errors := List.insert
                    (''Redefining '' @ p @ ''; original was defined in '' @ vo_name orig) errs\<rparr>)
           | None \<Rightarrow>
               load_old_yaml_loop H fmt y rest
                 (sc\<lparr>errors := errs,
                     namespaces := dict_set p
                       \<lparr>path = p, vo_name = sc_vo_name sc,
                        allowed_origins = get_default (yaml_AllowedOrigins y) [],
                        allowed_caches = get_default (yaml_AllowedCaches y) [],
                        authz_list = al,
                        writeback = None,
                        dirlist = None\<rparr> (namespaces sc)\<rparr>)))"

text \<open>
  \<^verbatim>\<open>StashCache.load_yaml\<close>.  \<^verbatim>\<open>is_null\<close> belongs to \<^verbatim>\<open>webapp.common\<close>, which is
  not among the sources; it holds when the key is missing or null or holds an empty
  collection.
\<close>

definition load_yaml ::
  "dn_hash \<Rightarrow> (authz_item \<Rightarrow> string) \<Rightarrow> stashcache_yaml \<Rightarrow> stashcache \<Rightarrow> error + stashcache" where
  "load_yaml H fmt y sc =
     (case yaml_Namespaces y of
        None \<Rightarrow> Inr sc
      | Some (NamespacesList decls) \<Rightarrow> if decls = [] then Inr sc else load_new_yaml H fmt decls sc
      | Some (NamespacesDict entries) \<Rightarrow>
          if entries = [] then Inr sc else load_old_yaml_loop H fmt y entries sc)"

text \<open>The constructor \<^verbatim>\<open>StashCache(vo_name, yaml_data)\<close>.\<close>

definition StashCache ::
  "dn_hash \<Rightarrow> (authz_item \<Rightarrow> string) \<Rightarrow> string \<Rightarrow> stashcache_yaml \<Rightarrow> error + stashcache" where
  "StashCache H fmt vo y = load_yaml H fmt y \<lparr>sc_vo_name = vo, namespaces = [], errors = []\<rparr>"

text \<open>
  \<^verbatim>\<open>VOsData\<close>: of a VO's document only \<^verbatim>\<open>DataFederations/StashCache\<close> is read here
  (\<open>None\<close>: missing, null or empty, the falsy values).
\<close>

record vo_yaml =
  vo_StashCache :: "stashcache_yaml option"

record vos_data =
  vos :: "(string \<times> vo_yaml) list"
  stashcache_by_vo_name :: "(string \<times> stashcache) list"

definition add_vo ::
  "dn_hash \<Rightarrow> (authz_item \<Rightarrow> string) \<Rightarrow> vos_data \<Rightarrow> string \<Rightarrow> vo_yaml \<Rightarrow> error + vos_data" where
  "add_vo H fmt self vo vo_data =
     (let self1 = self\<lparr>vos := dict_set vo vo_data (vos self)\<rparr>
      in case vo_StashCache vo_data of
           None \<Rightarrow> Inr self1
         | Some stashcache_data \<Rightarrow>
             (case StashCache H fmt vo stashcache_data of
                Inl e \<Rightarrow> Inl e
              | Inr stashcache_obj \<Rightarrow>
                  if errors stashcache_obj \<noteq> [] then Inr self1
                  else Inr (self1\<lparr>stashcache_by_vo_name :=
                              dict_set vo stashcache_obj (stashcache_by_vo_name self1)\<rparr>)))"

section \<open>webapp/data_federation.py: the second copy of the registry\<close>

text \<open>
  \<^verbatim>\<open>webapp/data_federation.py\<close> defines the same variants of \<^verbatim>\<open>AuthMethod\<close>, a
  \<^verbatim>\<open>Namespace\<close> with one more field, and its own \<^verbatim>\<open>StashCache\<close>.  Its parser of
  strings is that of \<^verbatim>\<open>webapp/vos_data.py\<close>, line for line; its parser of SciTokens
  attributes also accepts the spellings without a space.
\<close>

definition df_parse_authz_scitokens ::
  "scitokens_attributes \<Rightarrow> string \<Rightarrow> auth_method \<times> string option" where
  "df_parse_authz_scitokens attributes authz =
     (let issuer = attr_Issuer attributes;
          errors1 = (if \<not> truthy_str issuer then '''Issuer' missing or empty; '' else '''');
          base_path = (case attr_BasePath attributes of
                         Some v \<Rightarrow> v | None \<Rightarrow> attr_Base_Path attributes);
          errors2 = (if \<not> truthy_str base_path
                     then errors1 @ '''BasePath' missing or empty; '' else errors1);
          restricted_path =
            (case attr_RestrictedPath attributes of
               Some v \<Rightarrow> v
             | None \<Rightarrow> (case attr_Restricted_Path attributes of None \<Rightarrow> AttrNull | Some v \<Rightarrow> v));
          errors3 = (if truthy_attr restricted_path \<and> \<not> is_attr_str restricted_path
                     then errors2 @ '''RestrictedPath' not a string; '' else errors2);
          map_subject =
            (case attr_MapSubject attributes of
               Some v \<Rightarrow> v
             | None \<Rightarrow> (case attr_Map_Subject attributes of None \<Rightarrow> AttrBool False | Some v \<Rightarrow> v));
          errors4 = (if \<not> is_attr_bool map_subject
                     then errors3 @ '''MapSubject' not a boolean; '' else errors3)
      in if errors4 \<noteq> [] then
           (NullAuth, Some (''Invalid SciTokens auth '' @ authz @ '': ''
                              @ take (length errors4 - 2) errors4))
         else
           (SciTokenAuth (case issuer of Some s \<Rightarrow> s | None \<Rightarrow> [])
              (case base_path of Some s \<Rightarrow> s | None \<Rightarrow> [])
              restricted_path
              (case map_subject of AttrBool b \<Rightarrow> b | _ \<Rightarrow> False), None))"

definition df_parse_authz_dict ::
  "dn_hash \<Rightarrow> authz_entry list \<Rightarrow> string \<Rightarrow> (auth_method \<times> string option) option" where
  "df_parse_authz_dict H entries authz =
     (case entries of
        [] \<Rightarrow> None
      | EntrySciTokens attributes # _ \<Rightarrow>
          (case attributes of
             None \<Rightarrow> Some (NullAuth, Some (''Invalid SciTokens auth '' @ authz @ '': no attributes''))
           | Some a \<Rightarrow> Some (df_parse_authz_scitokens a authz))
      | EntryFQAN attributes # _ \<Rightarrow>
          (case attributes of
             Some f \<Rightarrow>
               if f = [] then Some (NullAuth, Some (''Invalid FQAN auth '' @ authz @ '': FQAN missing or empty''))
               else Some (FQANAuth f, None)
           | None \<Rightarrow> Some (NullAuth, Some (''Invalid FQAN auth '' @ authz @ '': FQAN missing or empty'')))
      | EntryDN attributes # _ \<Rightarrow>
          (if H = None
           then Some (NullAuth, Some ('''asn1' library unavailable; cannot handle DN auth '' @ authz))
           else case attributes of
             Some d \<Rightarrow>
               if d = [] then Some (NullAuth, Some (''Invalid DN auth '' @ authz @ '': DN missing or empty''))
               else Some (DNAuth d, None)
           | None \<Rightarrow> Some (NullAuth, Some (''Invalid DN auth '' @ authz @ '': DN missing or empty'')))
      | EntryOther auth_type # _ \<Rightarrow>
          Some (NullAuth, Some (''Unknown auth type '' @ auth_type @ '' in '' @ authz)))"

definition df_parse_authz ::
  "dn_hash \<Rightarrow> (authz_item \<Rightarrow> string) \<Rightarrow> authz_item \<Rightarrow> (auth_method \<times> string option) option" where
  "df_parse_authz H fmt authz =
     (case authz of
        AuthzDict entries \<Rightarrow> df_parse_authz_dict H entries (authz_text fmt authz)
      | AuthzStr s \<Rightarrow> Some (parse_authz_str H s)
      | AuthzOther \<Rightarrow> Some (NullAuth, Some (''Unknown authz list entry '' @ authz_text fmt authz)))"

text \<open>
  \<^verbatim>\<open>StashCache.parse_authz_list\<close> of \<^verbatim>\<open>webapp/data_federation.py\<close>: every item is
  parsed, a Public item does not end the loop.
\<close>

fun df_parse_authz_list_loop ::
  "dn_hash \<Rightarrow> (authz_item \<Rightarrow> string) \<Rightarrow> string \<Rightarrow> authz_item list \<Rightarrow> auth_method list
     \<Rightarrow> string list \<Rightarrow> error + (auth_method list \<times> string list)" where
  "df_parse_authz_list_loop H fmt p [] al errs = Inr (al, errs)"
| "df_parse_authz_list_loop H fmt p (authz # rest) al errs =
     (case df_parse_authz H fmt authz of
        None \<Rightarrow> Inl (TypeError ''cannot unpack non-iterable NoneType object'')
      | Some (parsed_authz, err) \<Rightarrow>
          if truthy_str err then
            df_parse_authz_list_loop H fmt p rest al
              (List.insert (''Namespace '' @ p @ '': '' @ the err) errs)
          else df_parse_authz_list_loop H fmt p rest (al @ [parsed_authz]) errs)"

definition df_parse_authz_list ::
  "dn_hash \<Rightarrow> (authz_item \<Rightarrow> string) \<Rightarrow> string \<Rightarrow> authz_item list \<Rightarrow> string list
     \<Rightarrow> error + (auth_method list \<times> string list)" where
  "df_parse_authz_list H fmt p unparsed_authz_list errs =
     df_parse_authz_list_loop H fmt p unparsed_authz_list [] errs"

text \<open>
  \<^verbatim>\<open>CredentialGeneration\<close>, with the types of the constructor's annotations, and its
  \<^verbatim>\<open>validate\<close>, which returns a set of strings.  \<^verbatim>\<open>urllib.parse.urlparse\<close> is the
  parameter \<open>urlparse\<close>: it gives the scheme and the network location, or raises (a
  \<^verbatim>\<open>ValueError\<close> on an unbalanced bracket, for one), and \<^verbatim>\<open>validate\<close> catches
  nothing.  With fields of these types the \<^verbatim>\<open>isinstance\<close> tests of \<^verbatim>\<open>validate\<close>
  pass and \<^verbatim>\<open>int(...)\<close> does not raise, so their branches add no error.
\<close>

record credential_generation =
  cg_strategy :: string
  cg_issuer :: string
  cg_max_scope_depth :: "int option"
  cg_vault_server :: "string option"
  cg_base_path :: "string option"
  cg_vault_issuer :: "string option"

definition STRATEGY_VAULT :: string where
  "STRATEGY_VAULT = ''Vault''"

definition STRATEGY_OAUTH2 :: string where
  "STRATEGY_OAUTH2 = ''OAuth2''"

definition STRATEGIES :: "string list" where
  "STRATEGIES = [STRATEGY_OAUTH2, STRATEGY_VAULT]"

definition py_str_int :: "int \<Rightarrow> string" where
  "py_str_int i = (if i < 0 then ''-'' @ py_str_nat (nat (- i)) else py_str_nat (nat i))"

definition validate ::
  "(string \<Rightarrow> error + string \<times> string) \<Rightarrow> credential_generation \<Rightarrow> error + string list" where
  "validate urlparse self =
     (let errprefix = ''CredentialGeneration:'';
          errors1 = (if cg_strategy self \<notin> set STRATEGIES
                     then List.insert (errprefix @ '' invalid Strategy '' @ cg_strategy self) []
                     else [])
      in case (if cg_issuer self = []
               then Inr (List.insert (errprefix @ '' Issuer not specified'') errors1)
               else case urlparse (cg_issuer self) of
                      Inl e \<Rightarrow> Inl e
                    | Inr parsed_issuer \<Rightarrow>
                        if snd parsed_issuer = [] \<or> fst parsed_issuer \<noteq> ''https''
                        then Inr (List.insert (errprefix @ '' Issuer not a valid URL ''
                                                 @ cg_issuer self) errors1)
                        else Inr errors1) of
           Inl e \<Rightarrow> Inl e
         | Inr errors2 \<Rightarrow>
             let errors3 = (case cg_max_scope_depth self of
                              None \<Rightarrow> errors2
                            | Some n \<Rightarrow>
                                if n \<noteq> 0 \<and> n < 0
                                then List.insert (errprefix @ '' negative MaxScopeDepth ''
                                                    @ py_str_int n) errors2
                                else errors2);
                 errors4 = (if truthy_str (cg_vault_server self) then
                              (if cg_strategy self \<noteq> STRATEGY_VAULT
                               then List.insert (errprefix @ '' VaultServer specified for a ''
                                                   @ cg_strategy self @ '' strategy'') errors3
                               else errors3)
                            else
                              (if cg_strategy self = STRATEGY_VAULT
                               then List.insert (errprefix @ '' VaultServer not specified for a ''
                                                   @ cg_strategy self @ '' strategy'') errors3
                               else errors3));
                 errors5 = (if truthy_str (cg_vault_issuer self) \<and> cg_strategy self \<noteq> STRATEGY_VAULT
                            then List.insert (errprefix @ '' VaultIssuer specified for a ''
                                                @ cg_strategy self @ '' strategy'') errors4
                            else errors4)
             in Inr errors5)"

record df_namespace = namespace +
  credential_generation :: "credential_generation option"

record df_stashcache =
  df_vo_name :: string
  df_namespaces :: "(string \<times> df_namespace) list"
  df_errors :: "string list"

text \<open>
  A declaration of the list shape with its optional \<^verbatim>\<open>CredentialGeneration\<close> block
  (\<open>None\<close>: the key is missing, also inside the block).
\<close>

record cg_yaml =
  cg_Strategy :: "string option"
  cg_Issuer :: "string option"
  cg_MaxScopeDepth :: "int option"
  cg_VaultServer :: "string option"
  cg_BasePath :: "string option"
  cg_VaultIssuer :: "string option"

record df_ns_data = ns_data +
  ns_CredentialGeneration :: "cg_yaml option"

definition CredentialGeneration :: "cg_yaml \<Rightarrow> credential_generation" where
  "CredentialGeneration cg =
     \<lparr>cg_strategy = get_default (cg_Strategy cg) '''',
      cg_issuer = get_default (cg_Issuer cg) '''',
      cg_max_scope_depth = cg_MaxScopeDepth cg,
      cg_vault_server = cg_VaultServer cg,
      cg_base_path = cg_BasePath cg,
      cg_vault_issuer = cg_VaultIssuer cg\<rparr>"

text \<open>
  \<^verbatim>\<open>StashCache.load_new_yaml\<close> of \<^verbatim>\<open>webapp/data_federation.py\<close>.  An exception
  of \<^verbatim>\<open>validate\<close> leaves the loop.  When the
  validation of a \<^verbatim>\<open>CredentialGeneration\<close> block returns errors, the statement
  \<^verbatim>\<open>self.errors += {...}\<close> is run: \<^verbatim>\<open>self.errors\<close> is a \<^verbatim>\<open>set\<close>, which has no
  \<^verbatim>\<open>+=\<close>, and Python raises
  \<^verbatim>\<open>TypeError: unsupported operand type(s) for +=: 'set' and 'set'\<close>.
\<close>

fun df_load_new_yaml_loop ::
  "dn_hash \<Rightarrow> (authz_item \<Rightarrow> string) \<Rightarrow> (string \<Rightarrow> error + string \<times> string) \<Rightarrow> nat
     \<Rightarrow> df_ns_data list \<Rightarrow> df_stashcache \<Rightarrow> error + df_stashcache" where
  "df_load_new_yaml_loop H fmt urlparse idx [] sc = Inr sc"
| "df_load_new_yaml_loop H fmt urlparse idx (d # rest) sc =
     (case ns_Path d of
        None \<Rightarrow>
          df_load_new_yaml_loop H fmt urlparse (Suc idx) rest
            (sc\<lparr>df_errors := List.insert (''Namespace #'' @ py_str_nat idx @ '': No Path'')
                                (df_errors sc)\<rparr>)
      | Some p \<Rightarrow>
          (case map_of (df_namespaces sc) p of
             Some orig \<Rightarrow>
               df_load_new_yaml_loop H fmt urlparse (Suc idx) rest
                 (sc\<lparr>df_errors := List.insert
                    (''Namespace #'' @ py_str_nat idx @ '': Redefining '' @ p
                       @ ''; original was defined in '' @ vo_name orig) (df_errors sc)\<rparr>)
           | None \<Rightarrow>
               (case df_parse_authz_list H fmt p (get_default (ns_Authorizations d) []) (df_errors sc) of
                  Inl e \<Rightarrow> Inl e
                | Inr (al, errs) \<Rightarrow>
                    (case (case ns_CredentialGeneration d of
                             None \<Rightarrow> Inr []
                           | Some cg \<Rightarrow> validate urlparse (CredentialGeneration cg)) of
                       Inl e \<Rightarrow> Inl e
                     | Inr cg_errors \<Rightarrow>
                         if cg_errors \<noteq> []
                         then Inl (TypeError ''unsupported operand type(s) for +=: set and set'')
                         else
                           df_load_new_yaml_loop H fmt urlparse (Suc idx) rest
                             (sc\<lparr>df_errors := errs,
                                 df_namespaces := dict_set p
                                   \<lparr>path = p, vo_name = df_vo_name sc,
                                    allowed_origins = get_default (ns_AllowedOrigins d) [],
                                    allowed_caches = get_default (ns_AllowedCaches d) [],
                                    authz_list = al,
                                    writeback = ns_Writeback d,
                                    dirlist = ns_DirList d,
                                    credential_generation =
                                      map_option CredentialGeneration (ns_CredentialGeneration d)\<rparr>
                                   (df_namespaces sc)\<rparr>)))))"

definition df_load_new_yaml ::
  "dn_hash \<Rightarrow> (authz_item \<Rightarrow> string) \<Rightarrow> (string \<Rightarrow> error + string \<times> string) \<Rightarrow> df_ns_data list
     \<Rightarrow> df_stashcache \<Rightarrow> error + df_stashcache" where
  "df_load_new_yaml H fmt urlparse decls sc = df_load_new_yaml_loop H fmt urlparse 0 decls sc"

section \<open>Nodes and the topology\<close>

text \<open>
  \<^verbatim>\<open>Resource\<close>, \<^verbatim>\<open>ResourceGroup\<close> and \<^verbatim>\<open>Topology\<close> belong to
  \<^verbatim>\<open>webapp.topology\<close>, which is not among the sources; the record holds the attributes
  the generators read.  \<open>AllowedVOs\<close> and \<open>DN\<close> are the two keys read from
  \<^verbatim>\<open>resource.data\<close>, \<open>None\<close> when the key is missing.
\<close>

record resource =
  name :: string
  fqdn :: string
  service_names :: "service_name list"
  AllowedVOs :: "string list option"
  DN :: "string option"

record resource_group =
  resources :: "resource list"

type_synonym topology = "resource_group list"

text \<open>
  Modelled from the spec: \<^verbatim>\<open>Topology.safe_get_resource_by_fqdn\<close> is missing from the
  sources.  It is the node-registry lookup by address that returns node-or-absent; by
  the docstring of \<^verbatim>\<open>_get_resource_with_service\<close>, of several resources with one
  FQDN the first is taken.
\<close>

definition safe_get_resource_by_fqdn :: "topology \<Rightarrow> string \<Rightarrow> resource option" where
  "safe_get_resource_by_fqdn topo f = find (\<lambda>r. fqdn r = f) (concat (map resources topo))"

definition get_resource_group_list :: "topology \<Rightarrow> resource_group list" where
  "get_resource_group_list topo = topo"

record global_data =
  get_topology :: topology
  get_vos_data :: vos_data
  get_ligo_dn_list :: "string list"

section \<open>stashcache.py: the policy evaluator\<close>

definition ANY :: string where
  "ANY = ''ANY''"

definition ANY_PUBLIC :: string where
  "ANY_PUBLIC = ''ANY_PUBLIC''"

definition log_or_raise :: "bool \<Rightarrow> error \<Rightarrow> error + unit" where
  "log_or_raise suppress_errors an_exception =
     (if suppress_errors then Inr () else Inl an_exception)"

definition resource_has_cache :: "resource \<Rightarrow> bool" where
  "resource_has_cache r = (XROOTD_CACHE_SERVER \<in> set (service_names r))"

text \<open>A falsy \<^verbatim>\<open>fqdn\<close> is \<^verbatim>\<open>None\<close> or the empty string.\<close>

definition fqdn_given :: "string option \<Rightarrow> bool" where
  "fqdn_given f = (case f of None \<Rightarrow> False | Some s \<Rightarrow> s \<noteq> [])"

definition get_resource_with_service ::
  "string option \<Rightarrow> service_name \<Rightarrow> topology \<Rightarrow> bool \<Rightarrow> error + resource option" where
  "get_resource_with_service f service topo suppress_errors =
     (if fqdn_given f then
        (case safe_get_resource_by_fqdn topo (the f) of
           None \<Rightarrow>
             (case log_or_raise suppress_errors (ResourceNotRegistered (the f)) of
                Inl e \<Rightarrow> Inl e | Inr _ \<Rightarrow> Inr None)
         | Some r \<Rightarrow>
             if service \<notin> set (service_names r) then
               (case log_or_raise suppress_errors (ResourceMissingService (name r) service) of
                  Inl e \<Rightarrow> Inl e | Inr _ \<Rightarrow> Inr None)
             else Inr (Some r))
      else Inr None)"

definition get_cache_resource :: "string option \<Rightarrow> topology \<Rightarrow> bool \<Rightarrow> error + resource option" where
  "get_cache_resource f topo suppress_errors =
     get_resource_with_service f XROOTD_CACHE_SERVER topo suppress_errors"

definition get_origin_resource :: "string option \<Rightarrow> topology \<Rightarrow> bool \<Rightarrow> error + resource option" where
  "get_origin_resource f topo suppress_errors =
     get_resource_with_service f XROOTD_ORIGIN_SERVER topo suppress_errors"

definition allowed_vos :: "resource \<Rightarrow> string list" where
  "allowed_vos r = (case AllowedVOs r of None \<Rightarrow> [] | Some vs \<Rightarrow> vs)"

definition resource_allows_namespace :: "resource \<Rightarrow> namespace option \<Rightarrow> bool" where
  "resource_allows_namespace r nso =
     (if ANY \<in> set (allowed_vos r) then True
      else case nso of
        None \<Rightarrow> False
      | Some ns \<Rightarrow>
          if ANY_PUBLIC \<in> set (allowed_vos r) \<and> is_public ns then True
          else if vo_name ns \<in> set (allowed_vos r) then True
          else False)"

definition namespace_allows_origin_resource :: "namespace \<Rightarrow> resource option \<Rightarrow> bool" where
  "namespace_allows_origin_resource ns origin =
     (case origin of None \<Rightarrow> False | Some r \<Rightarrow> name r \<in> set (allowed_origins ns))"

definition namespace_allows_cache_resource :: "namespace \<Rightarrow> resource option \<Rightarrow> bool" where
  "namespace_allows_cache_resource ns cache =
     (if ANY \<in> set (allowed_caches ns) then True
      else case cache of None \<Rightarrow> False | Some r \<Rightarrow> name r \<in> set (allowed_caches ns))"

definition get_supported_caches_for_namespace :: "namespace \<Rightarrow> topology \<Rightarrow> resource list" where
  "get_supported_caches_for_namespace ns topo =
     (let resource_groups = get_resource_group_list topo;
          all_caches = filter resource_has_cache (concat (map resources resource_groups))
      in filter (\<lambda>cache. namespace_allows_cache_resource ns (Some cache)
                          \<and> resource_allows_namespace cache (Some ns)) all_caches)"

section \<open>stashcache.py: the cache authfile\<close>

text \<open>A loop whose body can raise: the first exception ends it.\<close>

fun foldE :: "('a \<Rightarrow> 's \<Rightarrow> error + 's) \<Rightarrow> 'a list \<Rightarrow> 's \<Rightarrow> error + 's" where
  "foldE f [] s = Inr s"
| "foldE f (x # xs) s = (case f x s of Inl e \<Rightarrow> Inl e | Inr s' \<Rightarrow> foldE f xs s')"

text \<open>\<^verbatim>\<open>d[k].add(v)\<close> on a \<^verbatim>\<open>defaultdict(set)\<close>: a missing key is created, last.\<close>

definition defaultdict_add ::
  "string \<Rightarrow> string \<Rightarrow> (string \<times> string list) list \<Rightarrow> (string \<times> string list) list" where
  "defaultdict_add k v d = dict_set k (List.insert v (get_default (map_of d k) [])) d"

text \<open>
  The body of the loop over an authz list, in both authfile generators:
  \<^verbatim>\<open>if authz.used_in_authfile: id_to_dir[authz.get_authfile_id()].add(dirname);
  id_to_str[authz.get_authfile_id()] = str(authz)\<close>.
\<close>

definition record_identity ::
  "dn_hash \<Rightarrow> string \<Rightarrow> auth_method
     \<Rightarrow> (string \<times> string list) list \<times> (string \<times> string) list
     \<Rightarrow> error + ((string \<times> string list) list \<times> (string \<times> string) list)" where
  "record_identity H dirname authz maps =
     (if used_in_authfile authz then
        (case get_authfile_id H authz of
           Inl e \<Rightarrow> Inl e
         | Inr i \<Rightarrow> Inr (defaultdict_add i dirname (fst maps), dict_set i (auth_str authz) (snd maps)))
      else Inr maps)"

text \<open>
  \<^verbatim>\<open>" ".join(f"{p} rl" for p in sorted(paths))\<close>, with the permission token as a
  parameter (\<^verbatim>\<open>rl\<close> for a cache, \<^verbatim>\<open>lr\<close> for an origin).
\<close>

definition paths_acl :: "string \<Rightarrow> string list \<Rightarrow> string" where
  "paths_acl token paths = py_join '' '' (map (\<lambda>p. p @ '' '' @ token) (sort paths))"

text \<open>
  The two lines of one identity; \<^verbatim>\<open>id_to_str[authfile_id]\<close> raises \<^verbatim>\<open>KeyError\<close>
  on a missing key.
\<close>

definition identity_lines ::
  "string \<Rightarrow> (string \<times> string) list \<Rightarrow> string \<times> string list \<Rightarrow> error + string list" where
  "identity_lines token id_to_str entry =
     (case map_of id_to_str (fst entry) of
        None \<Rightarrow> Inl (KeyError (fst entry))
      | Some s \<Rightarrow> Inr [''# '' @ s, fst entry @ '' '' @ paths_acl token (snd entry)])"

fun all_identity_lines ::
  "string \<Rightarrow> (string \<times> string) list \<Rightarrow> (string \<times> string list) list \<Rightarrow> error + string list" where
  "all_identity_lines token id_to_str [] = Inr []"
| "all_identity_lines token id_to_str (entry # rest) =
     (case identity_lines token id_to_str entry of
        Inl e \<Rightarrow> Inl e
      | Inr ls \<Rightarrow> (case all_identity_lines token id_to_str rest of
                    Inl e \<Rightarrow> Inl e | Inr ls' \<Rightarrow> Inr (ls @ ls')))"

record cache_state =
  cs_warnings :: string
  cs_id_to_dir :: "(string \<times> string list) list"
  cs_id_to_str :: "(string \<times> string) list"
  cs_ligo_authz_list :: "auth_method list"

text \<open>
  \<^verbatim>\<open>fetch_ligo_authz_list_if_needed\<close>; \<^verbatim>\<open>parse_authz\<close> on a string is
  \<^verbatim>\<open>_parse_authz_str\<close>.
\<close>

definition fetch_ligo_authz_list_if_needed ::
  "dn_hash \<Rightarrow> global_data \<Rightarrow> auth_method list \<Rightarrow> auth_method list" where
  "fetch_ligo_authz_list_if_needed H gd ligo_authz_list =
     (if ligo_authz_list = []
      then ligo_authz_list @ map (\<lambda>d. fst (parse_authz_str H (''DN:'' @ d))) (get_ligo_dn_list gd)
      else ligo_authz_list)"

text \<open>
  The gate both cache authfile generators apply to a namespace:
  \<^verbatim>\<open>if not namespace_allows_cache_resource(namespace, resource): continue\<close> and
  \<^verbatim>\<open>if resource and not resource_allows_namespace(resource, namespace): continue\<close>.
\<close>

definition cache_gate :: "namespace \<Rightarrow> resource option \<Rightarrow> bool" where
  "cache_gate ns res =
     (if \<not> namespace_allows_cache_resource ns res then False
      else case res of
        None \<Rightarrow> True
      | Some r \<Rightarrow> if \<not> resource_allows_namespace r (Some ns) then False else True)"

text \<open>
  One turn of the inner loop of \<^verbatim>\<open>generate_cache_authfile\<close>.  The namespace object is
  returned with the state: \<^verbatim>\<open>extended_authz_list = namespace.authz_list\<close> binds the
  namespace's own list, and \<^verbatim>\<open>+=\<close> on a list extends it in place.
\<close>

definition cache_authfile_namespace ::
  "dn_hash \<Rightarrow> global_data \<Rightarrow> resource option \<Rightarrow> bool \<Rightarrow> string \<Rightarrow> namespace \<Rightarrow> cache_state
     \<Rightarrow> (error + cache_state) \<times> namespace" where
  "cache_authfile_namespace H gd res legacy dirname ns st =
     (if \<not> cache_gate ns res then (Inr st, ns)
      else if is_public ns then (Inr st, ns)
      else
        let ligo = (if dirname = ''/user/ligo'' \<and> legacy
                    then fetch_ligo_authz_list_if_needed H gd (cs_ligo_authz_list st)
                    else cs_ligo_authz_list st);
            ns1 = (if dirname = ''/user/ligo'' \<and> legacy
                   then ns\<lparr>authz_list := authz_list ns @ ligo\<rparr> else ns);
            st1 = st\<lparr>cs_ligo_authz_list := ligo,
                     cs_warnings := (if dirname = ''/user/ligo'' \<and> \<not> legacy
                                     then cs_warnings st @ ''# LIGO DNs unavailable\<newline>''
                                     else cs_warnings st)\<rparr>
        in case foldE (record_identity H dirname) (authz_list ns1)
                  (cs_id_to_dir st1, cs_id_to_str st1) of
             Inl e \<Rightarrow> (Inl e, ns1)
           | Inr maps \<Rightarrow> (Inr (st1\<lparr>cs_id_to_dir := fst maps, cs_id_to_str := snd maps\<rparr>), ns1))"

fun cache_authfile_namespaces ::
  "dn_hash \<Rightarrow> global_data \<Rightarrow> resource option \<Rightarrow> bool \<Rightarrow> (string \<times> namespace) list \<Rightarrow> cache_state
     \<Rightarrow> (error + cache_state) \<times> (string \<times> namespace) list" where
  "cache_authfile_namespaces H gd res legacy [] st = (Inr st, [])"
| "cache_authfile_namespaces H gd res legacy ((dirname, ns) # rest) st =
     (case cache_authfile_namespace H gd res legacy dirname ns st of
        (Inl e, ns') \<Rightarrow> (Inl e, (dirname, ns') # rest)
      | (Inr st', ns') \<Rightarrow>
          (case cache_authfile_namespaces H gd res legacy rest st' of
             (r, rest') \<Rightarrow> (r, (dirname, ns') # rest')))"

fun cache_authfile_vos ::
  "dn_hash \<Rightarrow> global_data \<Rightarrow> resource option \<Rightarrow> bool \<Rightarrow> (string \<times> stashcache) list \<Rightarrow> cache_state
     \<Rightarrow> (error + cache_state) \<times> (string \<times> stashcache) list" where
  "cache_authfile_vos H gd res legacy [] st = (Inr st, [])"
| "cache_authfile_vos H gd res legacy ((vo, stashcache_obj) # rest) st =
     (case cache_authfile_namespaces H gd res legacy (namespaces stashcache_obj) st of
        (Inl e, nss') \<Rightarrow> (Inl e, (vo, stashcache_obj\<lparr>namespaces := nss'\<rparr>) # rest)
      | (Inr st', nss') \<Rightarrow>
          (case cache_authfile_vos H gd res legacy rest st' of
             (r, rest') \<Rightarrow> (r, (vo, stashcache_obj\<lparr>namespaces := nss'\<rparr>) # rest')))"

text \<open>
  \<^verbatim>\<open>generate_cache_authfile\<close>.  The second component is the snapshot as the call
  leaves it.
\<close>

definition generate_cache_authfile ::
  "dn_hash \<Rightarrow> global_data \<Rightarrow> string option \<Rightarrow> bool \<Rightarrow> bool \<Rightarrow> (error + string) \<times> global_data" where
  "generate_cache_authfile H gd f legacy suppress_errors =
     (case (if fqdn_given f then get_cache_resource f (get_topology gd) suppress_errors
            else Inr None) of
        Inl e \<Rightarrow> (Inl e, gd)
      | Inr res \<Rightarrow>
          if fqdn_given f \<and> res = None then (Inr '''', gd)
          else
            (case cache_authfile_vos H gd res legacy (stashcache_by_vo_name (get_vos_data gd))
                    \<lparr>cs_warnings = '''', cs_id_to_dir = [], cs_id_to_str = [],
                     cs_ligo_authz_list = []\<rparr> of
               (r, vos') \<Rightarrow>
                 let gd' = gd\<lparr>get_vos_data := (get_vos_data gd)\<lparr>stashcache_by_vo_name := vos'\<rparr>\<rparr>
                 in case r of
                      Inl e \<Rightarrow> (Inl e, gd')
                    | Inr st \<Rightarrow>
                        if cs_id_to_dir st = []
                        then (Inl (DataError ''Cache does not support any protected namespaces''), gd')
                        else
                          (case all_identity_lines ''rl'' (cs_id_to_str st) (cs_id_to_dir st) of
                             Inl e \<Rightarrow> (Inl e, gd')
                           | Inr ls \<Rightarrow>
                               (Inr (cs_warnings st @ concat (map (\<lambda>l. l @ ''\<newline>'') ls)), gd'))))"

section \<open>stashcache.py: the authfile of a public cache\<close>

definition public_dirs_namespace ::
  "resource option \<Rightarrow> string \<times> namespace \<Rightarrow> string list \<Rightarrow> string list" where
  "public_dirs_namespace res entry public_dirs =
     (if \<not> cache_gate (snd entry) res then public_dirs
      else if is_public (snd entry) then List.insert (fst entry) public_dirs
      else public_dirs)"

definition public_dirs_of :: "resource option \<Rightarrow> vos_data \<Rightarrow> string list" where
  "public_dirs_of res vd =
     fold (\<lambda>vo_entry. fold (public_dirs_namespace res) (namespaces (snd vo_entry)))
       (stashcache_by_vo_name vd) []"

definition generate_public_cache_authfile ::
  "global_data \<Rightarrow> string option \<Rightarrow> bool \<Rightarrow> bool \<Rightarrow> error + string" where
  "generate_public_cache_authfile gd f legacy suppress_errors =
     (let authfile0 = ''u * /user/ligo -rl '' @ [CHR 0x5C] @ ''\<newline>''
      in case (if fqdn_given f then get_cache_resource f (get_topology gd) suppress_errors
               else Inr None) of
           Inl e \<Rightarrow> Inl e
         | Inr res \<Rightarrow>
             if fqdn_given f \<and> res = None then Inr ''''
             else
               let public_dirs = public_dirs_of res (get_vos_data gd)
               in if public_dirs = []
                  then Inl (DataError ''Cache does not support any public namespaces'')
                  else
                    let authfile = authfile0 @ concat (map (\<lambda>dirname. ''    '' @ dirname @ '' rl ''
                                      @ [CHR 0x5C] @ ''\<newline>'') (sort public_dirs))
                    in if py_endswith authfile ('' '' @ [CHR 0x5C] @ ''\<newline>'')
                       then Inr (take (length authfile - 3) authfile @ ''\<newline>'')
                       else Inr authfile)"

section \<open>stashcache.py: the SciTokens configuration\<close>

text \<open>
  The two generators differ in the lookup, in the namespace-side predicate and in the
  service name handed to \<^verbatim>\<open>get_scitokens_conf_block\<close>.  The state of the loops is the
  pair of \<^verbatim>\<open>allowed_vos\<close> (a set) and the list of collected authz entries.
\<close>

definition scitokens_authz ::
  "string \<Rightarrow> auth_method \<Rightarrow> string list \<times> auth_method list \<Rightarrow> string list \<times> auth_method list" where
  "scitokens_authz vo authz acc =
     (if used_in_scitokens_conf authz then (List.insert vo (fst acc), snd acc @ [authz]) else acc)"

definition cache_scitokens_namespace ::
  "resource \<Rightarrow> string \<Rightarrow> string \<times> namespace \<Rightarrow> string list \<times> auth_method list
     \<Rightarrow> string list \<times> auth_method list" where
  "cache_scitokens_namespace cache_resource vo entry acc =
     (if is_public (snd entry) then acc
      else if \<not> namespace_allows_cache_resource (snd entry) (Some cache_resource) then acc
      else if \<not> resource_allows_namespace cache_resource (Some (snd entry)) then acc
      else fold (scitokens_authz vo) (authz_list (snd entry)) acc)"

definition origin_scitokens_namespace ::
  "resource \<Rightarrow> string \<Rightarrow> string \<times> namespace \<Rightarrow> string list \<times> auth_method list
     \<Rightarrow> string list \<times> auth_method list" where
  "origin_scitokens_namespace origin_resource vo entry acc =
     (if is_public (snd entry) then acc
      else if \<not> namespace_allows_origin_resource (snd entry) (Some origin_resource) then acc
      else if \<not> resource_allows_namespace origin_resource (Some (snd entry)) then acc
      else fold (scitokens_authz vo) (authz_list (snd entry)) acc)"

definition scitokens_collect ::
  "(string \<Rightarrow> string \<times> namespace \<Rightarrow> string list \<times> auth_method list
      \<Rightarrow> string list \<times> auth_method list)
     \<Rightarrow> vos_data \<Rightarrow> string list \<times> auth_method list" where
  "scitokens_collect visit vd =
     fold (\<lambda>vo_entry. fold (visit (fst vo_entry)) (namespaces (snd vo_entry)))
       (stashcache_by_vo_name vd) ([], [])"

definition dummy_auth :: auth_method where
  "dummy_auth = SciTokenAuth ''https://scitokens.org/nonexistent'' ''/no-issuers-found'' AttrNull False"

fun conf_blocks :: "service_name \<Rightarrow> auth_method list \<Rightarrow> error + string list" where
  "conf_blocks service [] = Inr []"
| "conf_blocks service (a # rest) =
     (case get_scitokens_conf_block a service of
        Inl e \<Rightarrow> Inl e
      | Inr b \<Rightarrow> (case conf_blocks service rest of Inl e \<Rightarrow> Inl e | Inr bs \<Rightarrow> Inr (b # bs)))"

text \<open>
  From \<^verbatim>\<open>if not cache_authz_list\<close> to the end of both generators: the placeholder, the
  set of rendered blocks, the two sorted joins, the template and
  \<^verbatim>\<open>.rstrip() + "\n"\<close>.
\<close>

definition scitokens_render ::
  "service_name \<Rightarrow> string list \<times> auth_method list \<Rightarrow> error + string" where
  "scitokens_render service acc =
     (let authz_list1 = (if snd acc = [] then snd acc @ [dummy_auth] else snd acc)
      in case conf_blocks service authz_list1 of
           Inl e \<Rightarrow> Inl e
         | Inr blocks \<Rightarrow>
             let issuer_blocks = remdups blocks;
                 issuer_blocks_str = py_join ''\<newline>'' (sort issuer_blocks);
                 allowed_vos_str = py_join '', '' (sort (fst acc))
             in Inr (py_rstrip (''[Global]\<newline>audience = '' @ allowed_vos_str @ ''\<newline>\<newline>''
                                  @ issuer_blocks_str @ ''\<newline>'') @ ''\<newline>''))"

definition generate_cache_scitokens :: "global_data \<Rightarrow> string option \<Rightarrow> bool \<Rightarrow> error + string" where
  "generate_cache_scitokens gd f suppress_errors =
     (case get_cache_resource f (get_topology gd) suppress_errors of
        Inl e \<Rightarrow> Inl e
      | Inr None \<Rightarrow> Inr ''''
      | Inr (Some cache_resource) \<Rightarrow>
          scitokens_render XROOTD_CACHE_SERVER
            (scitokens_collect (cache_scitokens_namespace cache_resource) (get_vos_data gd)))"

definition generate_origin_scitokens :: "global_data \<Rightarrow> string option \<Rightarrow> bool \<Rightarrow> error + string" where
  "generate_origin_scitokens gd f suppress_errors =
     (case get_origin_resource f (get_topology gd) suppress_errors of
        Inl e \<Rightarrow> Inl e
      | Inr None \<Rightarrow> Inr ''''
      | Inr (Some origin_resource) \<Rightarrow>
          scitokens_render XROOTD_ORIGIN_SERVER
            (scitokens_collect (origin_scitokens_namespace origin_resource) (get_vos_data gd)))"

section \<open>stashcache.py: the origin authfile\<close>

record origin_state =
  os_public_paths :: "string list"
  os_id_to_paths :: "(string \<times> string list) list"
  os_id_to_str :: "(string \<times> string) list"
  os_warnings :: "string list"

text \<open>
  The loop over \<^verbatim>\<open>allowed_resources\<close>: a resource with a truthy \<^verbatim>\<open>DN\<close> gives a
  \<^verbatim>\<open>DNAuth\<close>, any other a warning.
\<close>

definition origin_principal ::
  "string \<Rightarrow> string \<Rightarrow> resource \<Rightarrow> auth_method list \<times> string list \<Rightarrow> auth_method list \<times> string list" where
  "origin_principal vo p r acc =
     (if truthy_str (DN r) then (fst acc @ [DNAuth (the (DN r))], snd acc)
      else (fst acc, snd acc @ [''# WARNING: Resource '' @ name r @ '' was skipped for VO '' @ vo
                                  @ '', namespace '' @ p
                                  @ '' because the resource does not provide a DN.'']))"

text \<open>
  One turn of the inner loop of \<^verbatim>\<open>generate_origin_authfile\<close>.  After
  \<^verbatim>\<open>namespace_allows_origin_resource\<close> has passed, the origin is not \<^verbatim>\<open>None\<close>; on
  \<^verbatim>\<open>None\<close> the next line would read an attribute of \<^verbatim>\<open>None\<close>.
\<close>

definition origin_authfile_namespace ::
  "dn_hash \<Rightarrow> topology \<Rightarrow> resource option \<Rightarrow> bool \<Rightarrow> string \<Rightarrow> string \<times> namespace \<Rightarrow> origin_state
     \<Rightarrow> error + origin_state" where
  "origin_authfile_namespace H topo origin public_origin vo entry st =
     (if \<not> namespace_allows_origin_resource (snd entry) origin then Inr st
      else case origin of
        None \<Rightarrow> Inl (AttributeError ''NoneType object has no attribute data'')
      | Some origin_resource \<Rightarrow>
          if \<not> resource_allows_namespace origin_resource (Some (snd entry)) then Inr st
          else if is_public (snd entry)
          then Inr (st\<lparr>os_public_paths := List.insert (fst entry) (os_public_paths st)\<rparr>)
          else if public_origin then Inr st
          else
            let allowed_caches = get_supported_caches_for_namespace (snd entry) topo;
                allowed_resources = [origin_resource] @ allowed_caches;
                warnings1 = (if allowed_caches \<noteq> [] then os_warnings st
                             else os_warnings st
                               @ [''# WARNING: No working cache / namespace combinations found for ''
                                    @ fst entry]);
                principals = fold (origin_principal vo (fst entry)) allowed_resources ([], warnings1)
            in case foldE (record_identity H (fst entry)) (fst principals)
                      (os_id_to_paths st, os_id_to_str st) of
                 Inl e \<Rightarrow> Inl e
               | Inr maps \<Rightarrow> Inr (st\<lparr>os_id_to_paths := fst maps, os_id_to_str := snd maps,
                                      os_warnings := snd principals\<rparr>))"

definition origin_authfile_collect ::
  "dn_hash \<Rightarrow> topology \<Rightarrow> resource option \<Rightarrow> bool \<Rightarrow> vos_data \<Rightarrow> error + origin_state" where
  "origin_authfile_collect H topo origin public_origin vd =
     foldE (\<lambda>vo_entry. foldE (origin_authfile_namespace H topo origin public_origin (fst vo_entry))
                           (namespaces (snd vo_entry)))
       (stashcache_by_vo_name vd)
       \<lparr>os_public_paths = [], os_id_to_paths = [], os_id_to_str = [], os_warnings = []\<rparr>"

text \<open>The list \<^verbatim>\<open>authfile_lines\<close>, from the state the loops leave.\<close>

definition origin_authfile_lines :: "bool \<Rightarrow> origin_state \<Rightarrow> error + string list" where
  "origin_authfile_lines public_origin st =
     (case all_identity_lines ''lr'' (os_id_to_str st) (os_id_to_paths st) of
        Inl e \<Rightarrow> Inl e
      | Inr ls \<Rightarrow>
          Inr (os_warnings st @ ls
               @ (if public_origin \<and> os_public_paths st \<noteq> []
                  then ['''', ''u * '' @ paths_acl ''lr'' (os_public_paths st)] else [])))"

definition generate_origin_authfile ::
  "dn_hash \<Rightarrow> global_data \<Rightarrow> string option \<Rightarrow> bool \<Rightarrow> bool \<Rightarrow> error + string" where
  "generate_origin_authfile H gd f suppress_errors public_origin =
     (case (if fqdn_given f then get_origin_resource f (get_topology gd) suppress_errors
            else Inr None) of
        Inl e \<Rightarrow> Inl e
      | Inr origin_resource \<Rightarrow>
          if fqdn_given f \<and> origin_resource = None then Inr ''''
          else
            (case origin_authfile_collect H (get_topology gd) origin_resource public_origin
                    (get_vos_data gd) of
               Inl e \<Rightarrow> Inl e
             | Inr st \<Rightarrow>
                 if os_id_to_paths st = [] \<and> os_public_paths st = []
                 then Inl (DataError ''Origin does not support any namespaces'')
                 else
                   (case origin_authfile_lines public_origin st of
                      Inl e \<Rightarrow> Inl e
                    | Inr authfile_lines \<Rightarrow> Inr (py_join ''\<newline>'' authfile_lines @ ''\<newline>''))))"

section \<open>Notions used to state the properties\<close>

text \<open>All the pairs of a path and its namespace, over the registries of all VOs.\<close>

definition all_namespaces :: "vos_data \<Rightarrow> (string \<times> namespace) list" where
  "all_namespaces vd = concat (map (\<lambda>vo_entry. namespaces (snd vo_entry)) (stashcache_by_vo_name vd))"

text \<open>
  The path \<open>d\<close> is in the set that the dict \<^verbatim>\<open>id_to_dir\<close> holds for the identity \<open>i\<close>.
\<close>

definition listed :: "(string \<times> string list) list \<Rightarrow> string \<Rightarrow> string \<Rightarrow> bool" where
  "listed id_to_dir i d = (\<exists>dirs. map_of id_to_dir i = Some dirs \<and> d \<in> set dirs)"

text \<open>
  The entries that \<^verbatim>\<open>fetch_ligo_authz_list_if_needed\<close> returns, and the list that the
  loop of \<^verbatim>\<open>generate_cache_authfile\<close> reads for a namespace: its \<^verbatim>\<open>authz_list\<close>,
  followed by those entries when the path is \<^verbatim>\<open>/user/ligo\<close> and \<^verbatim>\<open>legacy\<close> holds.
\<close>

definition ligo_entries :: "dn_hash \<Rightarrow> global_data \<Rightarrow> auth_method list" where
  "ligo_entries H gd = map (\<lambda>d. fst (parse_authz_str H (''DN:'' @ d))) (get_ligo_dn_list gd)"

definition extended_authz_list ::
  "dn_hash \<Rightarrow> global_data \<Rightarrow> bool \<Rightarrow> string \<Rightarrow> namespace \<Rightarrow> auth_method list" where
  "extended_authz_list H gd legacy dirname ns =
     (if dirname = ''/user/ligo'' \<and> legacy then authz_list ns @ ligo_entries H gd
      else authz_list ns)"

text \<open>
  The pairs of a path and an entry that the loop reads at one namespace, and the warning
  it adds there.
\<close>

definition entries_read ::
  "dn_hash \<Rightarrow> global_data \<Rightarrow> resource option \<Rightarrow> bool \<Rightarrow> string \<times> namespace
     \<Rightarrow> (string \<times> auth_method) list" where
  "entries_read H gd res legacy entry =
     (if cache_gate (snd entry) res \<and> \<not> is_public (snd entry)
      then map (Pair (fst entry)) (extended_authz_list H gd legacy (fst entry) (snd entry))
      else [])"

definition ligo_warning :: "resource option \<Rightarrow> bool \<Rightarrow> string \<times> namespace \<Rightarrow> string" where
  "ligo_warning res legacy entry =
     (if cache_gate (snd entry) res \<and> \<not> is_public (snd entry)
         \<and> fst entry = ''/user/ligo'' \<and> \<not> legacy
      then ''# LIGO DNs unavailable\<newline>'' else '''')"

text \<open>
  The text of an authfile: for each identity of \<^verbatim>\<open>id_to_dir\<close>, in order, the comment
  line with its entry of \<^verbatim>\<open>id_to_str\<close> and the line of its sorted paths.
\<close>

definition authfile_text ::
  "string \<Rightarrow> (string \<times> string) list \<Rightarrow> (string \<times> string list) list \<Rightarrow> string" where
  "authfile_text token id_to_str id_to_dir =
     concat (map (\<lambda>entry. ''# '' @ get_default (map_of id_to_str (fst entry)) '''' @ ''\<newline>''
                          @ fst entry @ '' '' @ paths_acl token (snd entry) @ ''\<newline>'') id_to_dir)"

text \<open>
  The gate of \<^verbatim>\<open>generate_origin_authfile\<close>: the namespace names the origin and the
  origin admits the namespace.
\<close>

definition origin_gate :: "namespace \<Rightarrow> resource option \<Rightarrow> bool" where
  "origin_gate ns origin =
     (case origin of
        None \<Rightarrow> False
      | Some r \<Rightarrow> namespace_allows_origin_resource ns origin \<and> resource_allows_namespace r (Some ns))"

text \<open>
  All the authorization items of a VO's StashCache block, and all the paths it declares.
\<close>

definition yaml_authz_items :: "stashcache_yaml \<Rightarrow> authz_item list" where
  "yaml_authz_items y =
     (case yaml_Namespaces y of
        None \<Rightarrow> []
      | Some (NamespacesList decls) \<Rightarrow> concat (map (\<lambda>d. get_default (ns_Authorizations d) []) decls)
      | Some (NamespacesDict entries) \<Rightarrow> concat (map snd entries))"

definition yaml_paths :: "stashcache_yaml \<Rightarrow> string list" where
  "yaml_paths y =
     (case yaml_Namespaces y of
        None \<Rightarrow> []
      | Some (NamespacesList decls) \<Rightarrow>
          concat (map (\<lambda>d. case ns_Path d of None \<Rightarrow> [] | Some p \<Rightarrow> [p]) decls)
      | Some (NamespacesDict entries) \<Rightarrow> map fst entries)"

text \<open>The \<^verbatim>\<open>Namespace\<close> that \<^verbatim>\<open>load_new_yaml\<close> builds from a declaration.\<close>

definition declared_namespace :: "string \<Rightarrow> string \<Rightarrow> ns_data \<Rightarrow> auth_method list \<Rightarrow> namespace" where
  "declared_namespace vo p d al =
     \<lparr>path = p, vo_name = vo,
      allowed_origins = get_default (ns_AllowedOrigins d) [],
      allowed_caches = get_default (ns_AllowedCaches d) [],
      authz_list = al, writeback = ns_Writeback d, dirlist = ns_DirList d\<rparr>"

definition redefining_message :: "nat \<Rightarrow> string \<Rightarrow> string \<Rightarrow> string" where
  "redefining_message idx p vo =
     ''Namespace #'' @ py_str_nat idx @ '': Redefining '' @ p @ ''; original was defined in '' @ vo"

text \<open>
  The \<^verbatim>\<open>Namespace\<close> that \<^verbatim>\<open>load_new_yaml\<close> of \<^verbatim>\<open>webapp/data_federation.py\<close>
  builds from a declaration.
\<close>

definition df_declared_namespace ::
  "string \<Rightarrow> string \<Rightarrow> df_ns_data \<Rightarrow> auth_method list \<Rightarrow> df_namespace" where
  "df_declared_namespace vo p d al =
     \<lparr>path = p, vo_name = vo,
      allowed_origins = get_default (ns_AllowedOrigins d) [],
      allowed_caches = get_default (ns_AllowedCaches d) [],
      authz_list = al, writeback = ns_Writeback d, dirlist = ns_DirList d,
      credential_generation = map_option CredentialGeneration (ns_CredentialGeneration d)\<rparr>"

section \<open>A small federation, for concrete instances\<close>

definition ex_hash :: dn_hash where
  "ex_hash = Some (\<lambda>d. ''h:'' @ d)"

definition ex_cache :: resource where
  "ex_cache = \<lparr>name = ''cache1'', fqdn = ''c1.example.org'',
     service_names = [XROOTD_CACHE_SERVER], AllowedVOs = Some [''ANY''], DN = Some ''/CN=c1''\<rparr>"

definition ex_origin :: resource where
  "ex_origin = \<lparr>name = ''origin1'', fqdn = ''o1.example.org'',
     service_names = [XROOTD_ORIGIN_SERVER], AllowedVOs = Some [''ANY''], DN = Some ''/CN=o1''\<rparr>"

definition ex_topology :: topology where
  "ex_topology = [\<lparr>resources = [ex_cache, ex_origin]\<rparr>]"

definition ex_ns_a :: namespace where
  "ex_ns_a = \<lparr>path = ''/a'', vo_name = ''vo'', allowed_origins = [''origin1''],
     allowed_caches = [''ANY''], authz_list = [FQANAuth ''/vo''],
     writeback = None, dirlist = None\<rparr>"

definition ex_ns_b :: namespace where
  "ex_ns_b = \<lparr>path = ''/b'', vo_name = ''vo'', allowed_origins = [''origin1''],
     allowed_caches = [''cache1''], authz_list = [FQANAuth ''/vo''],
     writeback = None, dirlist = None\<rparr>"

definition ex_ns_public :: namespace where
  "ex_ns_public = \<lparr>path = ''/p'', vo_name = ''vo'', allowed_origins = [''origin1''],
     allowed_caches = [''ANY''], authz_list = [PublicAuth],
     writeback = None, dirlist = None\<rparr>"

definition ex_ns_ligo :: namespace where
  "ex_ns_ligo = \<lparr>path = ''/user/ligo'', vo_name = ''vo'', allowed_origins = [],
     allowed_caches = [''ANY''], authz_list = [FQANAuth ''/ligo''],
     writeback = None, dirlist = None\<rparr>"

definition ex_registry :: "(string \<times> namespace) list \<Rightarrow> global_data" where
  "ex_registry nss =
     \<lparr>get_topology = ex_topology,
      get_vos_data = \<lparr>vos = [], stashcache_by_vo_name =
        (if nss = [] then []
         else [(''vo'', \<lparr>sc_vo_name = ''vo'', namespaces = nss, errors = []\<rparr>)])\<rparr>,
      get_ligo_dn_list = [''/CN=alice'']\<rparr>"

text \<open>Declarations of the list shape, for concrete instances.\<close>

definition ex_decl :: "string \<Rightarrow> authz_item list \<Rightarrow> ns_data" where
  "ex_decl p items = \<lparr>ns_Path = Some p, ns_Authorizations = Some items, ns_AllowedOrigins = None,
     ns_AllowedCaches = Some [''ANY''], ns_Writeback = None, ns_DirList = None\<rparr>"

definition ex_yaml :: "ns_data list \<Rightarrow> stashcache_yaml" where
  "ex_yaml decls = \<lparr>yaml_Namespaces = Some (NamespacesList decls), yaml_AllowedOrigins = None,
     yaml_AllowedCaches = None\<rparr>"

definition ex_df_decl :: "string \<Rightarrow> authz_item list \<Rightarrow> cg_yaml option \<Rightarrow> df_ns_data" where
  "ex_df_decl p items cg = \<lparr>ns_Path = Some p, ns_Authorizations = Some items, ns_AllowedOrigins = None,
     ns_AllowedCaches = Some [''ANY''], ns_Writeback = None, ns_DirList = None,
     ns_CredentialGeneration = cg\<rparr>"

definition ex_cg :: "string \<Rightarrow> cg_yaml" where
  "ex_cg strategy = \<lparr>cg_Strategy = Some strategy, cg_Issuer = Some ''https://issuer.example.org/'',
     cg_MaxScopeDepth = None, cg_VaultServer = None, cg_BasePath = None, cg_VaultIssuer = None\<rparr>"

text \<open>
  A stand-in for \<^verbatim>\<open>urlparse\<close>: it raises on the one issuer with an unbalanced bracket
  and accepts every other.
\<close>

definition ex_urlparse :: "string \<Rightarrow> error + string \<times> string" where
  "ex_urlparse u =
     (if u = ''https://[::1'' then Inl (ValueError ''Invalid IPv6 URL'')
      else Inr (''https'', ''issuer.example.org''))"

section \<open>Properties\<close>

text \<open>
  C2.  A node is an element of \<open>get_supported_caches_for_namespace ns R\<close> if and only if
  it is a cache-capable node of the registry \<open>R\<close> and both
  \<open>namespace_allows_cache_resource ns n\<close> and \<open>resource_allows_namespace n ns\<close> hold.
\<close>

theorem supported_caches_iff:
  "n \<in> set (get_supported_caches_for_namespace ns R) \<longleftrightarrow>
     (n \<in> set (concat (map resources (get_resource_group_list R))) \<and> resource_has_cache n)
     \<and> namespace_allows_cache_resource ns (Some n)
     \<and> resource_allows_namespace n (Some ns)"
  by (auto simp: get_supported_caches_for_namespace_def Let_def)

subsection \<open>The node lookup and the SciTokens rendering\<close>

lemmas ex_defs = ex_registry_def ex_topology_def ex_cache_def ex_origin_def ex_ns_a_def ex_ns_b_def
  ex_ns_public_def ex_ns_ligo_def ex_hash_def

lemma get_resource_with_service_falsy:
  "\<not> fqdn_given f \<Longrightarrow> get_resource_with_service f service topo s = Inr None"
  by (simp add: get_resource_with_service_def)

lemma get_resource_with_service_Inl:
  "get_resource_with_service f service topo s = Inl e \<Longrightarrow>
     \<not> s \<and> fqdn_given f \<and>
     (safe_get_resource_by_fqdn topo (the f) = None \<and> e = ResourceNotRegistered (the f)
      \<or> (\<exists>r. safe_get_resource_by_fqdn topo (the f) = Some r \<and> service \<notin> set (service_names r)
              \<and> e = ResourceMissingService (name r) service))"
  by (auto simp: get_resource_with_service_def log_or_raise_def
           split: if_splits option.splits sum.splits)

lemma get_resource_with_service_Some:
  "get_resource_with_service f service topo s = Inr (Some r) \<Longrightarrow>
     fqdn_given f \<and> safe_get_resource_by_fqdn topo (the f) = Some r \<and> service \<in> set (service_names r)"
  by (auto simp: get_resource_with_service_def log_or_raise_def
           split: if_splits option.splits sum.splits)

lemma conf_blocks_total:
  "service = XROOTD_CACHE_SERVER \<or> service = XROOTD_ORIGIN_SERVER \<Longrightarrow>
     \<exists>bs. conf_blocks service xs = Inr bs \<and> length bs = length xs"
proof (induction xs)
  case Nil
  then show ?case by simp
next
  case (Cons a xs)
  then obtain bs where bs: "conf_blocks service xs = Inr bs" "length bs = length xs" by blast
  from Cons.prems have "\<exists>b. get_scitokens_conf_block a service = Inr b"
    by (cases a) auto
  then show ?case using bs by auto
qed

lemma scitokens_render_total:
  "service = XROOTD_CACHE_SERVER \<or> service = XROOTD_ORIGIN_SERVER \<Longrightarrow>
     \<exists>t. scitokens_render service acc = Inr t"
  using conf_blocks_total [of service "if snd acc = [] then snd acc @ [dummy_auth] else snd acc"]
  by (auto simp: scitokens_render_def Let_def)

lemma scitokens_render_not_Inl [simp]:
  "scitokens_render XROOTD_CACHE_SERVER acc \<noteq> Inl e"
  "scitokens_render XROOTD_ORIGIN_SERVER acc \<noteq> Inl e"
  using scitokens_render_total [of XROOTD_CACHE_SERVER acc]
    scitokens_render_total [of XROOTD_ORIGIN_SERVER acc] by auto

text \<open>
  C10.  With an absent or empty \<^verbatim>\<open>fqdn\<close> both SciTokens generators return the empty
  string, whatever the registry and the flag \<^verbatim>\<open>suppress_errors\<close>; and the only
  errors they raise are the two lookup errors, for a non-empty \<^verbatim>\<open>fqdn\<close> that is not
  registered or whose resource lacks the service, with \<^verbatim>\<open>suppress_errors\<close> false.
\<close>

theorem scitokens_falsy_fqdn:
  "((f = None \<or> f = Some '''') \<longrightarrow>
      generate_cache_scitokens gd f s = Inr '''' \<and> generate_origin_scitokens gd f s = Inr '''')
   \<and> (generate_cache_scitokens gd f s = Inl e \<longrightarrow>
        \<not> s \<and> (\<exists>a. f = Some a \<and> a \<noteq> '''' \<and>
          (safe_get_resource_by_fqdn (get_topology gd) a = None \<and> e = ResourceNotRegistered a
           \<or> (\<exists>r. safe_get_resource_by_fqdn (get_topology gd) a = Some r
                   \<and> XROOTD_CACHE_SERVER \<notin> set (service_names r)
                   \<and> e = ResourceMissingService (name r) XROOTD_CACHE_SERVER))))
   \<and> (generate_origin_scitokens gd f s = Inl e \<longrightarrow>
        \<not> s \<and> (\<exists>a. f = Some a \<and> a \<noteq> '''' \<and>
          (safe_get_resource_by_fqdn (get_topology gd) a = None \<and> e = ResourceNotRegistered a
           \<or> (\<exists>r. safe_get_resource_by_fqdn (get_topology gd) a = Some r
                   \<and> XROOTD_ORIGIN_SERVER \<notin> set (service_names r)
                   \<and> e = ResourceMissingService (name r) XROOTD_ORIGIN_SERVER))))"
proof (intro conjI impI)
  assume "f = None \<or> f = Some ''''"
  then have nf: "\<not> fqdn_given f" by (auto simp: fqdn_given_def)
  show "generate_cache_scitokens gd f s = Inr ''''"
    by (simp add: generate_cache_scitokens_def get_cache_resource_def
          get_resource_with_service_falsy [OF nf])
  show "generate_origin_scitokens gd f s = Inr ''''"
    by (simp add: generate_origin_scitokens_def get_origin_resource_def
          get_resource_with_service_falsy [OF nf])
next
  assume a: "generate_cache_scitokens gd f s = Inl e"
  have "get_resource_with_service f XROOTD_CACHE_SERVER (get_topology gd) s = Inl e"
    using a
    by (auto simp: generate_cache_scitokens_def get_cache_resource_def
             split: sum.splits option.splits)
  from get_resource_with_service_Inl [OF this]
  show "\<not> s" 
    and "\<exists>a. f = Some a \<and> a \<noteq> '''' \<and>
          (safe_get_resource_by_fqdn (get_topology gd) a = None \<and> e = ResourceNotRegistered a
           \<or> (\<exists>r. safe_get_resource_by_fqdn (get_topology gd) a = Some r
                   \<and> XROOTD_CACHE_SERVER \<notin> set (service_names r)
                   \<and> e = ResourceMissingService (name r) XROOTD_CACHE_SERVER))"
    by (auto simp: fqdn_given_def split: option.splits)
next
  assume a: "generate_origin_scitokens gd f s = Inl e"
  have "get_resource_with_service f XROOTD_ORIGIN_SERVER (get_topology gd) s = Inl e"
    using a
    by (auto simp: generate_origin_scitokens_def get_origin_resource_def
             split: sum.splits option.splits)
  from get_resource_with_service_Inl [OF this]
  show "\<not> s" 
    and "\<exists>a. f = Some a \<and> a \<noteq> '''' \<and>
          (safe_get_resource_by_fqdn (get_topology gd) a = None \<and> e = ResourceNotRegistered a
           \<or> (\<exists>r. safe_get_resource_by_fqdn (get_topology gd) a = Some r
                   \<and> XROOTD_ORIGIN_SERVER \<notin> set (service_names r)
                   \<and> e = ResourceMissingService (name r) XROOTD_ORIGIN_SERVER))"
    by (auto simp: fqdn_given_def split: option.splits)
qed

theorem scitokens_falsy_fqdn_witness:
  "generate_cache_scitokens (ex_registry []) None True = Inr ''''
   \<and> generate_origin_scitokens (ex_registry []) (Some '''') False = Inr ''''
   \<and> generate_cache_scitokens (ex_registry []) (Some ''nowhere'') False
       = Inl (ResourceNotRegistered ''nowhere'')
   \<and> safe_get_resource_by_fqdn (get_topology (ex_registry [])) ''nowhere'' = None
   \<and> generate_origin_scitokens (ex_registry []) (Some ''c1.example.org'') False
       = Inl (ResourceMissingService ''cache1'' XROOTD_ORIGIN_SERVER)
   \<and> XROOTD_ORIGIN_SERVER \<notin> set (service_names ex_cache)"
proof -
  have a: "generate_cache_scitokens (ex_registry []) (Some ''nowhere'') False
       = Inl (ResourceNotRegistered ''nowhere'')"
    by (simp add: generate_cache_scitokens_def get_cache_resource_def get_resource_with_service_def
        fqdn_given_def safe_get_resource_by_fqdn_def log_or_raise_def ex_defs)
  have b: "generate_origin_scitokens (ex_registry []) (Some ''c1.example.org'') False
       = Inl (ResourceMissingService ''cache1'' XROOTD_ORIGIN_SERVER)"
    by (simp add: generate_origin_scitokens_def get_origin_resource_def get_resource_with_service_def
        fqdn_given_def safe_get_resource_by_fqdn_def log_or_raise_def ex_defs)
  show ?thesis
    using scitokens_falsy_fqdn [of None "ex_registry []" True]
      scitokens_falsy_fqdn [of "Some ''''" "ex_registry []" False]
      scitokens_falsy_fqdn [of "Some ''nowhere''" "ex_registry []" False "ResourceNotRegistered ''nowhere''"]
      scitokens_falsy_fqdn [of "Some ''c1.example.org''" "ex_registry []" False
         "ResourceMissingService ''cache1'' XROOTD_ORIGIN_SERVER"] a b
    by (auto simp: safe_get_resource_by_fqdn_def ex_defs)
qed

subsection \<open>Public namespaces\<close>

lemma auth_is_public_iff: "auth_is_public a \<longleftrightarrow> a = PublicAuth"
  by (cases a) auto

lemma parse_authz_scitokens_not_public:
  "fst (parse_authz_scitokens attrs t) \<noteq> PublicAuth"
  by (simp add: parse_authz_scitokens_def Let_def)

lemma parse_authz_public_no_error:
  "parse_authz H fmt item = Some (PublicAuth, e) \<Longrightarrow> e = None"
  using parse_authz_scitokens_not_public
  by (auto simp: parse_authz_def parse_authz_dict_def parse_authz_str_def Let_def
           split: authz_item.splits list.splits authz_entry.splits option.splits if_splits
           dest: arg_cong [where f = fst])

lemma parse_authz_list_loop_public:
  "parse_authz_list_loop H fmt p items acc errs = Inr (al, errs') \<Longrightarrow>
   PublicAuth \<notin> set acc \<Longrightarrow>
   (if \<exists>item \<in> set items. \<exists>e. parse_authz H fmt item = Some (PublicAuth, e)
    then al = [PublicAuth] else PublicAuth \<notin> set al)"
proof (induction items arbitrary: acc errs)
  case Nil
  then show ?case by simp
next
  case (Cons item items)
  from Cons.prems(1) obtain a e where pa: "parse_authz H fmt item = Some (a, e)"
    by (auto split: option.splits)
  show ?case
  proof (cases "truthy_str e")
    case True
    have np: "a \<noteq> PublicAuth"
    proof
      assume "a = PublicAuth"
      with pa have "e = None" using parse_authz_public_no_error [of H fmt item e] by simp
      with True show False by (simp add: truthy_str_def)
    qed
    from Cons.prems True pa have
      "parse_authz_list_loop H fmt p items acc (List.insert (''Namespace '' @ p @ '': '' @ the e) errs)
         = Inr (al, errs')" by simp
    from Cons.IH [OF this Cons.prems(2)] np pa show ?thesis by auto
  next
    case False
    show ?thesis
    proof (cases "a = PublicAuth")
      case True
      with Cons.prems False pa show ?thesis by auto
    next
      case np: False
      with Cons.prems False pa have
        "parse_authz_list_loop H fmt p items (acc @ [a]) errs = Inr (al, errs')"
        by (simp add: auth_is_public_iff)
      from Cons.IH [OF this] np Cons.prems(2) pa show ?thesis by auto
    qed
  qed
qed

text \<open>
  C1, as stated, fails for the \<^verbatim>\<open>Namespace\<close> of \<^verbatim>\<open>webapp/vos_data.py\<close>: a
  namespace whose authz list is a DN entry followed by a Public entry is not public
  there, although one of its entries is the Public variant.
\<close>

theorem is_public_first_entry_counterexample:
  "\<not> (is_public (ex_ns_a\<lparr>authz_list := [DNAuth ''/CN=x'', PublicAuth]\<rparr>)
        \<longleftrightarrow> PublicAuth \<in> set (authz_list (ex_ns_a\<lparr>authz_list := [DNAuth ''/CN=x'', PublicAuth]\<rparr>)))"
  by (simp add: is_public_def)

text \<open>
  C1, amended.  \<^verbatim>\<open>is_public\<close> of \<^verbatim>\<open>webapp/data_federation.py\<close> holds if and only if
  some entry of the authz list is the Public variant.  \<^verbatim>\<open>is_public\<close> of
  \<^verbatim>\<open>webapp/vos_data.py\<close> holds if and only if the list is not empty and its first entry
  is the Public variant.  On every list that \<^verbatim>\<open>parse_authz_list\<close> of
  \<^verbatim>\<open>webapp/vos_data.py\<close> returns the two agree, and the list holds a Public entry if and
  only if some item of the unparsed list, in any position, parses to one.
\<close>

theorem is_public_by_module:
  "(df_is_public ns \<longleftrightarrow> PublicAuth \<in> set (authz_list ns))
   \<and> (is_public ns \<longleftrightarrow> (\<exists>rest. authz_list ns = PublicAuth # rest))
   \<and> (parse_authz_list H fmt p items errs = Inr (al, errs') \<longrightarrow>
        (is_public (ns\<lparr>authz_list := al\<rparr>) \<longleftrightarrow> PublicAuth \<in> set al)
        \<and> (PublicAuth \<in> set al \<longleftrightarrow>
             (\<exists>item \<in> set items. \<exists>e. parse_authz H fmt item = Some (PublicAuth, e))))"
proof (intro conjI impI)
  show "df_is_public ns \<longleftrightarrow> PublicAuth \<in> set (authz_list ns)"
    by (auto simp: df_is_public_def list_ex_iff auth_is_public_iff)
  show "is_public ns \<longleftrightarrow> (\<exists>rest. authz_list ns = PublicAuth # rest)"
    by (auto simp: is_public_def auth_is_public_iff split: list.splits)
next
  assume a: "parse_authz_list H fmt p items errs = Inr (al, errs')"
  from parse_authz_list_loop_public [of H fmt p items "[]" errs al errs'] a
  have c: "if \<exists>item \<in> set items. \<exists>e. parse_authz H fmt item = Some (PublicAuth, e)
    then al = [PublicAuth] else PublicAuth \<notin> set al"
    by (simp add: parse_authz_list_def)
  show "is_public (ns\<lparr>authz_list := al\<rparr>) \<longleftrightarrow> PublicAuth \<in> set al"
    using c by (auto simp: is_public_def auth_is_public_iff split: list.splits if_splits)
  show "PublicAuth \<in> set al \<longleftrightarrow>
             (\<exists>item \<in> set items. \<exists>e. parse_authz H fmt item = Some (PublicAuth, e))"
    using c by (auto split: if_splits)
qed

theorem is_public_by_module_witness:
  "parse_authz_list ex_hash (\<lambda>i. ''?'') ''/a'' [AuthzStr ''DN:/CN=x'', AuthzStr ''PUBLIC''] []
     = Inr ([PublicAuth], [])
   \<and> is_public (ex_ns_a\<lparr>authz_list := [PublicAuth]\<rparr>)
   \<and> df_is_public (ex_ns_a\<lparr>authz_list := [DNAuth ''/CN=x'', PublicAuth]\<rparr>)"
proof -
  have e: "parse_authz_list ex_hash (\<lambda>i. ''?'') ''/a'' [AuthzStr ''DN:/CN=x'', AuthzStr ''PUBLIC''] []
     = Inr ([PublicAuth], [])"
    by (simp add: parse_authz_list_def parse_authz_def parse_authz_str_def py_startswith_def
          py_strip_def py_lstrip_def py_rstrip_def py_whitespace_def ex_hash_def truthy_str_def Let_def)
  show ?thesis
    using e is_public_by_module [of "ex_ns_a\<lparr>authz_list := [DNAuth ''/CN=x'', PublicAuth]\<rparr>"
        ex_hash "\<lambda>i. ''?''" "''/a''" "[AuthzStr ''DN:/CN=x'', AuthzStr ''PUBLIC'']" "[]" "[PublicAuth]" "[]"]
    by simp
qed

subsection \<open>The cache authfiles with nothing to list\<close>

lemma cache_authfile_namespace_skip:
  "is_public ns \<or> \<not> cache_gate ns res \<Longrightarrow>
     cache_authfile_namespace H gd res legacy d ns st = (Inr st, ns)"
  by (auto simp: cache_authfile_namespace_def)

lemma cache_authfile_namespaces_skip:
  "\<forall>(d, ns) \<in> set nss. is_public ns \<or> \<not> cache_gate ns res \<Longrightarrow>
     cache_authfile_namespaces H gd res legacy nss st = (Inr st, nss)"
proof (induction nss)
  case Nil
  then show ?case by simp
next
  case (Cons e nss)
  obtain d ns where e: "e = (d, ns)" by (cases e)
  with Cons.prems have "is_public ns \<or> \<not> cache_gate ns res" by simp
  from cache_authfile_namespace_skip [OF this] Cons e show ?case by simp
qed

lemma cache_authfile_vos_skip:
  "\<forall>(d, ns) \<in> set (concat (map (\<lambda>vo_entry. namespaces (snd vo_entry)) vs)).
       is_public ns \<or> \<not> cache_gate ns res \<Longrightarrow>
     cache_authfile_vos H gd res legacy vs st = (Inr st, vs)"
proof (induction vs)
  case Nil
  then show ?case by simp
next
  case (Cons e vs)
  obtain vo sc where e: "e = (vo, sc)" by (cases e)
  from Cons.prems e have a: "\<forall>(d, ns) \<in> set (namespaces sc). is_public ns \<or> \<not> cache_gate ns res"
    by auto
  from Cons.prems have b: "\<forall>(d, ns) \<in> set (concat (map (\<lambda>vo_entry. namespaces (snd vo_entry)) vs)).
       is_public ns \<or> \<not> cache_gate ns res" by auto
  show ?case
    using cache_authfile_namespaces_skip [OF a] Cons.IH [OF b] e by simp
qed

lemma public_dirs_namespace_skip:
  "\<forall>(d, ns) \<in> set nss. \<not> is_public ns \<or> \<not> cache_gate ns res \<Longrightarrow>
     fold (public_dirs_namespace res) nss acc = acc"
  by (induction nss arbitrary: acc) (auto simp: public_dirs_namespace_def)

lemma public_dirs_vos_skip:
  "\<forall>(d, ns) \<in> set (concat (map (\<lambda>vo_entry. namespaces (snd vo_entry)) vs)).
       \<not> is_public ns \<or> \<not> cache_gate ns res \<Longrightarrow>
     fold (\<lambda>vo_entry. fold (public_dirs_namespace res) (namespaces (snd vo_entry))) vs acc = acc"
proof (induction vs arbitrary: acc)
  case Nil
  then show ?case by simp
next
  case (Cons e vs)
  from Cons.prems have a: "\<forall>(d, ns) \<in> set (namespaces (snd e)). \<not> is_public ns \<or> \<not> cache_gate ns res"
    by auto
  from Cons.prems have b: "\<forall>(d, ns) \<in> set (concat (map (\<lambda>vo_entry. namespaces (snd vo_entry)) vs)).
       \<not> is_public ns \<or> \<not> cache_gate ns res" by auto
  show ?case using public_dirs_namespace_skip [OF a] Cons.IH [OF b] by simp
qed

text \<open>
  C3, as stated, fails: with \<^verbatim>\<open>suppress_errors\<close> true and no qualifying non-public
  namespace, \<^verbatim>\<open>generate_cache_authfile\<close> still raises the \<^verbatim>\<open>DataError\<close>, and so does
  \<^verbatim>\<open>generate_public_cache_authfile\<close> with no qualifying public namespace.
\<close>

theorem empty_cache_artifact_counterexample:
  "fst (generate_cache_authfile ex_hash (ex_registry [(''/p'', ex_ns_public)]) None True True)
     = Inl (DataError ''Cache does not support any protected namespaces'')
   \<and> generate_public_cache_authfile (ex_registry [(''/a'', ex_ns_a)]) None True True
     = Inl (DataError ''Cache does not support any public namespaces'')"
  by (simp add: generate_cache_authfile_def generate_public_cache_authfile_def fqdn_given_def
        cache_authfile_namespace_def cache_gate_def namespace_allows_cache_resource_def
        is_public_def public_dirs_of_def public_dirs_namespace_def ANY_def ex_defs)

text \<open>
  C3, amended.  Once the target is settled (no \<^verbatim>\<open>fqdn\<close>, or an \<^verbatim>\<open>fqdn\<close> that resolves
  to a cache), a cache authfile generator that finds no qualifying non-public namespace
  raises the \<^verbatim>\<open>DataError\<close> for either value of \<^verbatim>\<open>suppress_errors\<close> and leaves the
  snapshot as it was, and likewise the public-cache generator that finds no qualifying
  public namespace.  The flag only decides what a failed lookup of the \<^verbatim>\<open>fqdn\<close> gives:
  the empty string when it is true, the lookup error when it is false.
\<close>

theorem empty_cache_artifact_raises:
  "((if fqdn_given f
     then get_cache_resource f (get_topology gd) suppress_errors = Inr res \<and> res \<noteq> None
     else res = None) \<longrightarrow>
      ((\<forall>(d, ns) \<in> set (all_namespaces (get_vos_data gd)). is_public ns \<or> \<not> cache_gate ns res) \<longrightarrow>
         generate_cache_authfile H gd f legacy suppress_errors
           = (Inl (DataError ''Cache does not support any protected namespaces''), gd))
      \<and> ((\<forall>(d, ns) \<in> set (all_namespaces (get_vos_data gd)). \<not> is_public ns \<or> \<not> cache_gate ns res) \<longrightarrow>
         generate_public_cache_authfile gd f legacy suppress_errors
           = Inl (DataError ''Cache does not support any public namespaces'')))
   \<and> (fqdn_given f \<and> get_cache_resource f (get_topology gd) suppress_errors = Inr None \<longrightarrow>
        suppress_errors
        \<and> generate_cache_authfile H gd f legacy suppress_errors = (Inr '''', gd)
        \<and> generate_public_cache_authfile gd f legacy suppress_errors = Inr '''')
   \<and> (fqdn_given f \<and> get_cache_resource f (get_topology gd) suppress_errors = Inl e \<longrightarrow>
        \<not> suppress_errors
        \<and> generate_cache_authfile H gd f legacy suppress_errors = (Inl e, gd)
        \<and> generate_public_cache_authfile gd f legacy suppress_errors = Inl e)"
proof (intro conjI impI)
  assume t: "if fqdn_given f
     then get_cache_resource f (get_topology gd) suppress_errors = Inr res \<and> res \<noteq> None
     else res = None"
  {
    assume n: "\<forall>(d, ns) \<in> set (all_namespaces (get_vos_data gd)). is_public ns \<or> \<not> cache_gate ns res"
    have "cache_authfile_vos H gd res legacy (stashcache_by_vo_name (get_vos_data gd)) st = (Inr st, stashcache_by_vo_name (get_vos_data gd))" for st
      using cache_authfile_vos_skip n unfolding all_namespaces_def by blast
    then show "generate_cache_authfile H gd f legacy suppress_errors
           = (Inl (DataError ''Cache does not support any protected namespaces''), gd)"
      using t by (auto simp: generate_cache_authfile_def split: if_splits)
  }
  {
    assume n: "\<forall>(d, ns) \<in> set (all_namespaces (get_vos_data gd)). \<not> is_public ns \<or> \<not> cache_gate ns res"
    have "public_dirs_of res (get_vos_data gd) = []"
      using public_dirs_vos_skip n unfolding all_namespaces_def public_dirs_of_def by blast
    then show "generate_public_cache_authfile gd f legacy suppress_errors
           = Inl (DataError ''Cache does not support any public namespaces'')"
      using t by (auto simp: generate_public_cache_authfile_def split: if_splits)
  }
next
  assume a: "fqdn_given f \<and> get_cache_resource f (get_topology gd) suppress_errors = Inr None"
  then show suppress_errors
    by (auto simp: get_cache_resource_def get_resource_with_service_def log_or_raise_def
          split: option.splits if_splits)
  from a show "generate_cache_authfile H gd f legacy suppress_errors = (Inr '''', gd)"
    by (simp add: generate_cache_authfile_def)
  from a show "generate_public_cache_authfile gd f legacy suppress_errors = Inr ''''"
    by (simp add: generate_public_cache_authfile_def)
next
  assume a: "fqdn_given f \<and> get_cache_resource f (get_topology gd) suppress_errors = Inl e"
  then show "\<not> suppress_errors"
    by (auto simp: get_cache_resource_def get_resource_with_service_def log_or_raise_def
          split: option.splits if_splits)
  from a show "generate_cache_authfile H gd f legacy suppress_errors = (Inl e, gd)"
    by (simp add: generate_cache_authfile_def)
  from a show "generate_public_cache_authfile gd f legacy suppress_errors = Inl e"
    by (simp add: generate_public_cache_authfile_def)
qed

theorem empty_cache_artifact_raises_witness:
  "generate_cache_authfile ex_hash (ex_registry [(''/p'', ex_ns_public)]) None False False
     = (Inl (DataError ''Cache does not support any protected namespaces''),
        ex_registry [(''/p'', ex_ns_public)])
   \<and> generate_public_cache_authfile (ex_registry [(''/a'', ex_ns_a)]) (Some ''c1.example.org'') True False
     = Inl (DataError ''Cache does not support any public namespaces'')
   \<and> generate_cache_authfile ex_hash (ex_registry []) (Some ''nowhere'') True True
     = (Inr '''', ex_registry [])
   \<and> generate_public_cache_authfile (ex_registry []) (Some ''nowhere'') True False
     = Inl (ResourceNotRegistered ''nowhere'')"
proof -
  have l1: "get_cache_resource (Some ''c1.example.org'') (get_topology (ex_registry [(''/a'', ex_ns_a)])) False
      = Inr (Some ex_cache)"
    by (simp add: get_cache_resource_def get_resource_with_service_def fqdn_given_def
        safe_get_resource_by_fqdn_def ex_defs)
  have l2: "get_cache_resource (Some ''nowhere'') (get_topology (ex_registry [])) True = Inr None"
    by (simp add: get_cache_resource_def get_resource_with_service_def fqdn_given_def
        safe_get_resource_by_fqdn_def log_or_raise_def ex_defs)
  have l3: "get_cache_resource (Some ''nowhere'') (get_topology (ex_registry [])) False
      = Inl (ResourceNotRegistered ''nowhere'')"
    by (simp add: get_cache_resource_def get_resource_with_service_def fqdn_given_def
        safe_get_resource_by_fqdn_def log_or_raise_def ex_defs)
  have g1: "\<forall>(d, ns) \<in> set (all_namespaces (get_vos_data (ex_registry [(''/p'', ex_ns_public)]))).
      is_public ns \<or> \<not> cache_gate ns None"
    by (simp add: all_namespaces_def is_public_def ex_defs)
  have g2: "\<forall>(d, ns) \<in> set (all_namespaces (get_vos_data (ex_registry [(''/a'', ex_ns_a)]))).
      \<not> is_public ns \<or> \<not> cache_gate ns (Some ex_cache)"
    by (simp add: all_namespaces_def is_public_def ex_defs)
  show ?thesis
    using empty_cache_artifact_raises [of None "ex_registry [(''/p'', ex_ns_public)]" False None
            ex_hash False]
      empty_cache_artifact_raises [of "Some ''c1.example.org''" "ex_registry [(''/a'', ex_ns_a)]"
            False "Some ex_cache" ex_hash True]
      empty_cache_artifact_raises [of "Some ''nowhere''" "ex_registry []" True None ex_hash True]
      empty_cache_artifact_raises [of "Some ''nowhere''" "ex_registry []" False None ex_hash True
            "ResourceNotRegistered ''nowhere''"]
      l1 l2 l3 g1 g2
    by (simp add: fqdn_given_def)
qed

subsection \<open>The placeholder issuer block\<close>

lemma fold_scitokens_authz_none:
  "\<forall>a \<in> set al. \<not> used_in_scitokens_conf a \<Longrightarrow> fold (scitokens_authz vo) al acc = acc"
  by (induction al arbitrary: acc) (auto simp: scitokens_authz_def)

lemma fold_namespaces_unchanged:
  "\<forall>entry \<in> set nss. visit entry acc = acc \<Longrightarrow> fold visit nss acc = acc"
  by (induction nss) auto

lemma scitokens_collect_nothing:
  assumes "\<forall>vo. \<forall>entry \<in> set (all_namespaces vd). visit vo entry ([], []) = ([], [])"
  shows "scitokens_collect visit vd = ([], [])"
proof -
  have "fold (\<lambda>vo_entry. fold (visit (fst vo_entry)) (namespaces (snd vo_entry))) vs ([], []) = ([], [])"
    if "\<forall>vo. \<forall>entry \<in> set (concat (map (\<lambda>vo_entry. namespaces (snd vo_entry)) vs)).
          visit vo entry ([], []) = ([], [])" for vs
    using that
  proof (induction vs)
    case Nil
    then show ?case by simp
  next
    case (Cons e vs)
    have "fold (visit (fst e)) (namespaces (snd e)) ([], []) = ([], [])"
      by (rule fold_namespaces_unchanged) (use Cons.prems in auto)
    moreover have "fold (\<lambda>vo_entry. fold (visit (fst vo_entry)) (namespaces (snd vo_entry))) vs ([], [])
        = ([], [])"
      by (rule Cons.IH) (use Cons.prems in auto)
    ultimately show ?case by simp
  qed
  then show ?thesis using assms by (simp add: scitokens_collect_def all_namespaces_def)
qed

lemma scitokens_render_placeholder_cache:
  "scitokens_render XROOTD_CACHE_SERVER ([], []) =
     Inr (''[Global]\<newline>audience = \<newline>\<newline>[Issuer https://scitokens.org/nonexistent]\<newline>''
          @ ''issuer = https://scitokens.org/nonexistent\<newline>base_path = /no-issuers-found\<newline>'')"
  by (simp add: scitokens_render_def dummy_auth_def py_rstrip_def py_whitespace_def)

lemma scitokens_render_placeholder_origin:
  "scitokens_render XROOTD_ORIGIN_SERVER ([], []) =
     Inr (''[Global]\<newline>audience = \<newline>\<newline>[Issuer https://scitokens.org/nonexistent]\<newline>''
          @ ''issuer = https://scitokens.org/nonexistent\<newline>base_path = /no-issuers-found\<newline>''
          @ ''map_subject = False\<newline>'')"
  by (simp add: scitokens_render_def dummy_auth_def py_rstrip_def py_whitespace_def py_str_bool_def)

lemma scitokens_authz_inv:
  "\<forall>a \<in> set (snd acc). used_in_scitokens_conf a \<Longrightarrow>
     \<forall>a \<in> set (snd (scitokens_authz vo x acc)). used_in_scitokens_conf a"
  by (auto simp: scitokens_authz_def)

lemma fold_inv:
  "(\<And>x acc. P acc \<Longrightarrow> P (g x acc)) \<Longrightarrow> P acc \<Longrightarrow> P (fold g xs acc)"
  by (induction xs arbitrary: acc) auto

lemma fold_scitokens_authz_inv:
  "\<forall>a \<in> set (snd acc). used_in_scitokens_conf a \<Longrightarrow>
     \<forall>a \<in> set (snd (fold (scitokens_authz vo) al acc)). used_in_scitokens_conf a"
  by (rule fold_inv [where P = "\<lambda>acc. \<forall>a \<in> set (snd acc). used_in_scitokens_conf a"])
     (rule scitokens_authz_inv)

lemma cache_scitokens_namespace_inv:
  "\<forall>a \<in> set (snd acc). used_in_scitokens_conf a \<Longrightarrow>
     \<forall>a \<in> set (snd (cache_scitokens_namespace r vo entry acc)). used_in_scitokens_conf a"
  using fold_scitokens_authz_inv [of acc vo "authz_list (snd entry)"]
  by (simp add: cache_scitokens_namespace_def)

lemma origin_scitokens_namespace_inv:
  "\<forall>a \<in> set (snd acc). used_in_scitokens_conf a \<Longrightarrow>
     \<forall>a \<in> set (snd (origin_scitokens_namespace r vo entry acc)). used_in_scitokens_conf a"
  using fold_scitokens_authz_inv [of acc vo "authz_list (snd entry)"]
  by (simp add: origin_scitokens_namespace_def)

lemma scitokens_collect_inv:
  assumes "\<And>vo entry acc. \<forall>a \<in> set (snd acc). used_in_scitokens_conf a \<Longrightarrow>
     \<forall>a \<in> set (snd (visit vo entry acc)). used_in_scitokens_conf a"
  shows "\<forall>a \<in> set (snd (scitokens_collect visit vd)). used_in_scitokens_conf a"
  unfolding scitokens_collect_def
proof (rule fold_inv [where P = "\<lambda>acc. \<forall>a \<in> set (snd acc). used_in_scitokens_conf a"])
  show "\<forall>a \<in> set (snd ([], [])). used_in_scitokens_conf a" by simp
next
  fix x :: "string \<times> stashcache" and acc :: "string list \<times> auth_method list"
  assume "\<forall>a \<in> set (snd acc). used_in_scitokens_conf a"
  then show "\<forall>a \<in> set (snd (fold (visit (fst x)) (namespaces (snd x)) acc)). used_in_scitokens_conf a"
    by (rule fold_inv [where P = "\<lambda>acc. \<forall>a \<in> set (snd acc). used_in_scitokens_conf a", rotated])
       (rule assms)
qed

lemma conf_blocks_issuer:
  assumes "service = XROOTD_CACHE_SERVER \<or> service = XROOTD_ORIGIN_SERVER"
    and "\<forall>a \<in> set al. used_in_scitokens_conf a"
  shows "\<exists>bs. conf_blocks service al = Inr bs \<and> length bs = length al
            \<and> (\<forall>b \<in> set bs. py_startswith b ''[Issuer '')"
  using assms(2)
proof (induction al)
  case Nil
  then show ?case by simp
next
  case (Cons a al)
  then obtain bs where bs: "conf_blocks service al = Inr bs" "length bs = length al"
    "\<forall>b \<in> set bs. py_startswith b ''[Issuer ''" by auto
  from Cons.prems obtain i b r m where a: "a = SciTokenAuth i b r m" by (cases a) auto
  have "\<exists>b. get_scitokens_conf_block a service = Inr b \<and> py_startswith b ''[Issuer ''"
    using assms(1) a by (auto simp: py_startswith_def)
  then show ?case using bs by auto
qed

lemma scitokens_render_blocks:
  assumes "service = XROOTD_CACHE_SERVER \<or> service = XROOTD_ORIGIN_SERVER"
    and "\<forall>a \<in> set (snd acc). used_in_scitokens_conf a"
  shows "\<exists>blocks. blocks \<noteq> [] \<and> (\<forall>b \<in> set blocks. py_startswith b ''[Issuer '')
     \<and> scitokens_render service acc =
         Inr (py_rstrip (''[Global]\<newline>audience = '' @ py_join '', '' (sort (fst acc)) @ ''\<newline>\<newline>''
                @ py_join ''\<newline>'' blocks @ ''\<newline>'') @ ''\<newline>'')"
proof -
  let ?al = "if snd acc = [] then snd acc @ [dummy_auth] else snd acc"
  have "\<forall>a \<in> set ?al. used_in_scitokens_conf a" using assms(2) by (simp add: dummy_auth_def)
  from conf_blocks_issuer [OF assms(1) this]
  obtain bs where bs: "conf_blocks service ?al = Inr bs" "length bs = length ?al"
    "\<forall>b \<in> set bs. py_startswith b ''[Issuer ''" by blast
  have ne: "bs \<noteq> []" using bs(2) by (auto split: if_splits)
  have "sort (remdups bs) \<noteq> []" using ne by (metis set_empty set_remdups set_sort)
  moreover have "\<forall>b \<in> set (sort (remdups bs)). py_startswith b ''[Issuer ''" using bs(3) by simp
  moreover have "scitokens_render service acc =
         Inr (py_rstrip (''[Global]\<newline>audience = '' @ py_join '', '' (sort (fst acc)) @ ''\<newline>\<newline>''
                @ py_join ''\<newline>'' (sort (remdups bs)) @ ''\<newline>'') @ ''\<newline>'')"
    using bs(1) by (simp add: scitokens_render_def Let_def)
  ultimately show ?thesis by blast
qed

text \<open>
  C6, as stated for every input, fails: with no \<^verbatim>\<open>fqdn\<close> no namespace qualifies and
  the output of both generators is the empty string, which holds no issuer block.
\<close>

theorem scitokens_no_block_counterexample:
  "generate_cache_scitokens (ex_registry []) None True = Inr ''''
   \<and> generate_origin_scitokens (ex_registry []) None True = Inr ''''"
  by (simp add: generate_cache_scitokens_def generate_origin_scitokens_def get_cache_resource_def
        get_origin_resource_def get_resource_with_service_def fqdn_given_def)

text \<open>
  C6, amended.  Whenever the \<^verbatim>\<open>fqdn\<close> resolves to a node with the required service,
  the output of the cache and of the origin SciTokens generator holds at least one
  issuer block; and when no non-public namespace passing both gates carries an entry
  with \<^verbatim>\<open>used_in_scitokens_conf\<close>, the output is exactly the \<^verbatim>\<open>[Global]\<close> section with an
  empty audience followed by the one placeholder block (with its \<^verbatim>\<open>map_subject\<close> line for
  an origin).  When the lookup gives no node the output is the empty string.
\<close>

theorem scitokens_placeholder:
  "(get_cache_resource f (get_topology gd) suppress_errors = Inr (Some r) \<longrightarrow>
      (\<forall>(d, ns) \<in> set (all_namespaces (get_vos_data gd)).
          is_public ns \<or> \<not> namespace_allows_cache_resource ns (Some r)
          \<or> \<not> resource_allows_namespace r (Some ns)
          \<or> (\<forall>a \<in> set (authz_list ns). \<not> used_in_scitokens_conf a)) \<longrightarrow>
      generate_cache_scitokens gd f suppress_errors =
        Inr (''[Global]\<newline>audience = \<newline>\<newline>[Issuer https://scitokens.org/nonexistent]\<newline>''
             @ ''issuer = https://scitokens.org/nonexistent\<newline>base_path = /no-issuers-found\<newline>''))
   \<and> (get_origin_resource f (get_topology gd) suppress_errors = Inr (Some r) \<longrightarrow>
      (\<forall>(d, ns) \<in> set (all_namespaces (get_vos_data gd)).
          is_public ns \<or> \<not> namespace_allows_origin_resource ns (Some r)
          \<or> \<not> resource_allows_namespace r (Some ns)
          \<or> (\<forall>a \<in> set (authz_list ns). \<not> used_in_scitokens_conf a)) \<longrightarrow>
      generate_origin_scitokens gd f suppress_errors =
        Inr (''[Global]\<newline>audience = \<newline>\<newline>[Issuer https://scitokens.org/nonexistent]\<newline>''
             @ ''issuer = https://scitokens.org/nonexistent\<newline>base_path = /no-issuers-found\<newline>''
             @ ''map_subject = False\<newline>''))
   \<and> (get_cache_resource f (get_topology gd) suppress_errors = Inr (Some r) \<longrightarrow>
        (\<exists>audience blocks. blocks \<noteq> [] \<and> (\<forall>b \<in> set blocks. py_startswith b ''[Issuer '')
           \<and> generate_cache_scitokens gd f suppress_errors =
               Inr (py_rstrip (''[Global]\<newline>audience = '' @ audience @ ''\<newline>\<newline>''
                      @ py_join ''\<newline>'' blocks @ ''\<newline>'') @ ''\<newline>'')))
   \<and> (get_origin_resource f (get_topology gd) suppress_errors = Inr (Some r) \<longrightarrow>
        (\<exists>audience blocks. blocks \<noteq> [] \<and> (\<forall>b \<in> set blocks. py_startswith b ''[Issuer '')
           \<and> generate_origin_scitokens gd f suppress_errors =
               Inr (py_rstrip (''[Global]\<newline>audience = '' @ audience @ ''\<newline>\<newline>''
                      @ py_join ''\<newline>'' blocks @ ''\<newline>'') @ ''\<newline>'')))
   \<and> (get_cache_resource f (get_topology gd) suppress_errors = Inr None \<longrightarrow>
        generate_cache_scitokens gd f suppress_errors = Inr '''')
   \<and> (get_origin_resource f (get_topology gd) suppress_errors = Inr None \<longrightarrow>
        generate_origin_scitokens gd f suppress_errors = Inr '''')"
proof (intro conjI impI)
  assume t: "get_cache_resource f (get_topology gd) suppress_errors = Inr (Some r)"
    and n: "\<forall>(d, ns) \<in> set (all_namespaces (get_vos_data gd)).
          is_public ns \<or> \<not> namespace_allows_cache_resource ns (Some r)
          \<or> \<not> resource_allows_namespace r (Some ns)
          \<or> (\<forall>a \<in> set (authz_list ns). \<not> used_in_scitokens_conf a)"
  have "scitokens_collect (cache_scitokens_namespace r) (get_vos_data gd) = ([], [])"
  proof (rule scitokens_collect_nothing, intro allI ballI)
    fix vo entry assume "entry \<in> set (all_namespaces (get_vos_data gd))"
    with n show "cache_scitokens_namespace r vo entry ([], []) = ([], [])"
      by (cases entry) (auto simp: cache_scitokens_namespace_def fold_scitokens_authz_none)
  qed
  with t show "generate_cache_scitokens gd f suppress_errors =
        Inr (''[Global]\<newline>audience = \<newline>\<newline>[Issuer https://scitokens.org/nonexistent]\<newline>''
             @ ''issuer = https://scitokens.org/nonexistent\<newline>base_path = /no-issuers-found\<newline>'')"
    by (simp add: generate_cache_scitokens_def scitokens_render_placeholder_cache)
next
  assume t: "get_origin_resource f (get_topology gd) suppress_errors = Inr (Some r)"
    and n: "\<forall>(d, ns) \<in> set (all_namespaces (get_vos_data gd)).
          is_public ns \<or> \<not> namespace_allows_origin_resource ns (Some r)
          \<or> \<not> resource_allows_namespace r (Some ns)
          \<or> (\<forall>a \<in> set (authz_list ns). \<not> used_in_scitokens_conf a)"
  have "scitokens_collect (origin_scitokens_namespace r) (get_vos_data gd) = ([], [])"
  proof (rule scitokens_collect_nothing, intro allI ballI)
    fix vo entry assume "entry \<in> set (all_namespaces (get_vos_data gd))"
    with n show "origin_scitokens_namespace r vo entry ([], []) = ([], [])"
      by (cases entry) (auto simp: origin_scitokens_namespace_def fold_scitokens_authz_none)
  qed
  with t show "generate_origin_scitokens gd f suppress_errors =
        Inr (''[Global]\<newline>audience = \<newline>\<newline>[Issuer https://scitokens.org/nonexistent]\<newline>''
             @ ''issuer = https://scitokens.org/nonexistent\<newline>base_path = /no-issuers-found\<newline>''
             @ ''map_subject = False\<newline>'')"
    by (simp add: generate_origin_scitokens_def scitokens_render_placeholder_origin)
next
  assume t: "get_cache_resource f (get_topology gd) suppress_errors = Inr (Some r)"
  have "\<forall>a \<in> set (snd (scitokens_collect (cache_scitokens_namespace r) (get_vos_data gd))).
          used_in_scitokens_conf a"
    by (rule scitokens_collect_inv) (rule cache_scitokens_namespace_inv)
  from scitokens_render_blocks [OF _ this, of XROOTD_CACHE_SERVER] t
  show "\<exists>audience blocks. blocks \<noteq> [] \<and> (\<forall>b \<in> set blocks. py_startswith b ''[Issuer '')
           \<and> generate_cache_scitokens gd f suppress_errors =
               Inr (py_rstrip (''[Global]\<newline>audience = '' @ audience @ ''\<newline>\<newline>''
                      @ py_join ''\<newline>'' blocks @ ''\<newline>'') @ ''\<newline>'')"
    unfolding generate_cache_scitokens_def by (simp del: append.simps) blast
next
  assume t: "get_origin_resource f (get_topology gd) suppress_errors = Inr (Some r)"
  have "\<forall>a \<in> set (snd (scitokens_collect (origin_scitokens_namespace r) (get_vos_data gd))).
          used_in_scitokens_conf a"
    by (rule scitokens_collect_inv) (rule origin_scitokens_namespace_inv)
  from scitokens_render_blocks [OF _ this, of XROOTD_ORIGIN_SERVER] t
  show "\<exists>audience blocks. blocks \<noteq> [] \<and> (\<forall>b \<in> set blocks. py_startswith b ''[Issuer '')
           \<and> generate_origin_scitokens gd f suppress_errors =
               Inr (py_rstrip (''[Global]\<newline>audience = '' @ audience @ ''\<newline>\<newline>''
                      @ py_join ''\<newline>'' blocks @ ''\<newline>'') @ ''\<newline>'')"
    unfolding generate_origin_scitokens_def by (simp del: append.simps) blast
next
  assume "get_cache_resource f (get_topology gd) suppress_errors = Inr None"
  then show "generate_cache_scitokens gd f suppress_errors = Inr ''''"
    by (simp add: generate_cache_scitokens_def)
next
  assume "get_origin_resource f (get_topology gd) suppress_errors = Inr None"
  then show "generate_origin_scitokens gd f suppress_errors = Inr ''''"
    by (simp add: generate_origin_scitokens_def)
qed

theorem scitokens_placeholder_witness:
  "generate_cache_scitokens (ex_registry [(''/a'', ex_ns_a), (''/p'', ex_ns_public)])
       (Some ''c1.example.org'') False =
     Inr (''[Global]\<newline>audience = \<newline>\<newline>[Issuer https://scitokens.org/nonexistent]\<newline>''
          @ ''issuer = https://scitokens.org/nonexistent\<newline>base_path = /no-issuers-found\<newline>'')
   \<and> generate_origin_scitokens (ex_registry [(''/a'', ex_ns_a), (''/p'', ex_ns_public)])
       (Some ''o1.example.org'') True =
     Inr (''[Global]\<newline>audience = \<newline>\<newline>[Issuer https://scitokens.org/nonexistent]\<newline>''
          @ ''issuer = https://scitokens.org/nonexistent\<newline>base_path = /no-issuers-found\<newline>''
          @ ''map_subject = False\<newline>'')
   \<and> generate_cache_scitokens (ex_registry [(''/a'', ex_ns_a)]) (Some ''o1.example.org'') True = Inr ''''
   \<and> generate_origin_scitokens (ex_registry [(''/a'', ex_ns_a)]) None False = Inr ''''"
proof -
  let ?gd = "ex_registry [(''/a'', ex_ns_a), (''/p'', ex_ns_public)]"
  have l1: "get_cache_resource (Some ''c1.example.org'') (get_topology ?gd) False = Inr (Some ex_cache)"
    by (simp add: get_cache_resource_def get_resource_with_service_def fqdn_given_def
        safe_get_resource_by_fqdn_def ex_defs)
  have l2: "get_origin_resource (Some ''o1.example.org'') (get_topology ?gd) True = Inr (Some ex_origin)"
    by (simp add: get_origin_resource_def get_resource_with_service_def fqdn_given_def
        safe_get_resource_by_fqdn_def ex_defs)
  have l3: "get_cache_resource (Some ''o1.example.org'') (get_topology (ex_registry [(''/a'', ex_ns_a)])) True
      = Inr None"
    by (simp add: get_cache_resource_def get_resource_with_service_def fqdn_given_def
        safe_get_resource_by_fqdn_def log_or_raise_def ex_defs)
  have l4: "get_origin_resource None (get_topology (ex_registry [(''/a'', ex_ns_a)])) False = Inr None"
    by (simp add: get_origin_resource_def get_resource_with_service_def fqdn_given_def)
  have g: "\<forall>(d, ns) \<in> set (all_namespaces (get_vos_data ?gd)).
      (\<forall>a \<in> set (authz_list ns). \<not> used_in_scitokens_conf a)"
    by (simp add: all_namespaces_def ex_defs)
  note w1 = scitokens_placeholder [of "Some ''c1.example.org''" ?gd False ex_cache, THEN conjunct1]
  note w2 = scitokens_placeholder [of "Some ''o1.example.org''" ?gd True ex_origin,
      THEN conjunct2, THEN conjunct1]
  note w3 = scitokens_placeholder [of "Some ''o1.example.org''" "ex_registry [(''/a'', ex_ns_a)]" True,
      THEN conjunct2, THEN conjunct2, THEN conjunct2, THEN conjunct2, THEN conjunct1]
  note w4 = scitokens_placeholder [of None "ex_registry [(''/a'', ex_ns_a)]" False,
      THEN conjunct2, THEN conjunct2, THEN conjunct2, THEN conjunct2, THEN conjunct2]
  have g1: "\<forall>(d, ns) \<in> set (all_namespaces (get_vos_data ?gd)).
          is_public ns \<or> \<not> namespace_allows_cache_resource ns (Some ex_cache)
          \<or> \<not> resource_allows_namespace ex_cache (Some ns)
          \<or> (\<forall>a \<in> set (authz_list ns). \<not> used_in_scitokens_conf a)"
    using g by blast
  have g2: "\<forall>(d, ns) \<in> set (all_namespaces (get_vos_data ?gd)).
          is_public ns \<or> \<not> namespace_allows_origin_resource ns (Some ex_origin)
          \<or> \<not> resource_allows_namespace ex_origin (Some ns)
          \<or> (\<forall>a \<in> set (authz_list ns). \<not> used_in_scitokens_conf a)"
    using g by blast
  show ?thesis
    using w1 [THEN mp, OF l1, THEN mp, OF g1] w2 [THEN mp, OF l2, THEN mp, OF g2]
      w3 [THEN mp, OF l3] w4 [THEN mp, OF l4]
    by (intro conjI)
qed

subsection \<open>What a namespace contributes to the cache authfile\<close>

lemma map_of_dict_set: "map_of (dict_set k v d) k' = (if k' = k then Some v else map_of d k')"
  by (induction d) auto

lemma set_dict_set: "set (dict_set k v d) \<subseteq> insert (k, v) (set d)"
  by (induction d) (auto split: if_splits)

lemma cache_gate_None: "cache_gate ns None \<longleftrightarrow> ANY \<in> set (allowed_caches ns)"
  by (simp add: cache_gate_def namespace_allows_cache_resource_def)

lemma listed_defaultdict_add:
  "listed (defaultdict_add i d m) i' d' \<longleftrightarrow> (i' = i \<and> d' = d) \<or> listed m i' d'"
  by (auto simp: listed_def defaultdict_add_def map_of_dict_set get_default_def split: option.splits)

text \<open>
  The nested loops of \<^verbatim>\<open>generate_cache_authfile\<close> amount to one loop over the pairs of
  \<open>entries_read\<close>, namespace after namespace; the two dicts they leave are then
  described by what one turn of \<open>record_identity\<close> does to them.
\<close>

lemma foldE_append:
  "foldE f (xs @ ys) s = (case foldE f xs s of Inl e \<Rightarrow> Inl e | Inr s' \<Rightarrow> foldE f ys s')"
  by (induction xs arbitrary: s) (auto split: sum.splits)

lemma foldE_map_Pair:
  "foldE (\<lambda>p. record_identity H (fst p) (snd p)) (map (Pair d) al) maps
     = foldE (record_identity H d) al maps"
  by (induction al arbitrary: maps) (auto split: sum.splits)

lemma fetch_ligo_entries:
  "cs = [] \<or> cs = ligo_entries H gd \<Longrightarrow> fetch_ligo_authz_list_if_needed H gd cs = ligo_entries H gd"
  by (auto simp: fetch_ligo_authz_list_if_needed_def ligo_entries_def)

lemma cache_authfile_namespace_reads:
  assumes "cache_authfile_namespace H gd res legacy d ns st = (Inr st', ns')"
    and "cs_ligo_authz_list st = [] \<or> cs_ligo_authz_list st = ligo_entries H gd"
  shows "foldE (\<lambda>p. record_identity H (fst p) (snd p)) (entries_read H gd res legacy (d, ns))
           (cs_id_to_dir st, cs_id_to_str st) = Inr (cs_id_to_dir st', cs_id_to_str st')
         \<and> (cs_ligo_authz_list st' = [] \<or> cs_ligo_authz_list st' = ligo_entries H gd)
         \<and> cs_warnings st' = cs_warnings st @ ligo_warning res legacy (d, ns)"
proof (cases "cache_gate ns res \<and> \<not> is_public ns")
  case False
  with assms(1) have "st' = st" by (auto simp: cache_authfile_namespace_def split: if_splits)
  with False assms(2) show ?thesis by (auto simp: entries_read_def ligo_warning_def)
next
  case True
  note f = fetch_ligo_entries [OF assms(2)]
  from assms True f show ?thesis
    by (auto simp: cache_authfile_namespace_def Let_def entries_read_def ligo_warning_def
          extended_authz_list_def foldE_map_Pair split: if_splits sum.splits)
qed

lemma cache_authfile_namespaces_reads:
  "cache_authfile_namespaces H gd res legacy nss st = (Inr st', nss') \<Longrightarrow>
   cs_ligo_authz_list st = [] \<or> cs_ligo_authz_list st = ligo_entries H gd \<Longrightarrow>
     foldE (\<lambda>p. record_identity H (fst p) (snd p)) (concat (map (entries_read H gd res legacy) nss))
           (cs_id_to_dir st, cs_id_to_str st) = Inr (cs_id_to_dir st', cs_id_to_str st')
     \<and> (cs_ligo_authz_list st' = [] \<or> cs_ligo_authz_list st' = ligo_entries H gd)
     \<and> cs_warnings st' = cs_warnings st @ concat (map (ligo_warning res legacy) nss)"
proof (induction nss arbitrary: st nss')
  case Nil
  then show ?case by simp
next
  case (Cons e nss)
  obtain d ns where e: "e = (d, ns)" by (cases e)
  from Cons.prems(1) e obtain st1 ns1 rest' where
    h: "cache_authfile_namespace H gd res legacy d ns st = (Inr st1, ns1)"
    and r: "cache_authfile_namespaces H gd res legacy nss st1 = (Inr st', rest')"
    by (auto split: prod.splits sum.splits)
  note s1 = cache_authfile_namespace_reads [OF h Cons.prems(2)]
  from s1 have l1: "cs_ligo_authz_list st1 = [] \<or> cs_ligo_authz_list st1 = ligo_entries H gd" by blast
  note s2 = Cons.IH [OF r l1]
  from s1 s2 e show ?case by (simp add: foldE_append)
qed

lemma cache_authfile_vos_reads:
  "cache_authfile_vos H gd res legacy vs st = (Inr st', vs') \<Longrightarrow>
   cs_ligo_authz_list st = [] \<or> cs_ligo_authz_list st = ligo_entries H gd \<Longrightarrow>
     foldE (\<lambda>p. record_identity H (fst p) (snd p))
           (concat (map (entries_read H gd res legacy)
                      (concat (map (\<lambda>vo_entry. namespaces (snd vo_entry)) vs))))
           (cs_id_to_dir st, cs_id_to_str st) = Inr (cs_id_to_dir st', cs_id_to_str st')
     \<and> (cs_ligo_authz_list st' = [] \<or> cs_ligo_authz_list st' = ligo_entries H gd)
     \<and> cs_warnings st' = cs_warnings st
          @ concat (map (ligo_warning res legacy) (concat (map (\<lambda>vo_entry. namespaces (snd vo_entry)) vs)))"
proof (induction vs arbitrary: st vs')
  case Nil
  then show ?case by simp
next
  case (Cons e vs)
  obtain vo sc where e: "e = (vo, sc)" by (cases e)
  from Cons.prems(1) e obtain st1 nss1 rest' where
    h: "cache_authfile_namespaces H gd res legacy (namespaces sc) st = (Inr st1, nss1)"
    and r: "cache_authfile_vos H gd res legacy vs st1 = (Inr st', rest')"
    by (auto split: prod.splits sum.splits)
  note s1 = cache_authfile_namespaces_reads [OF h Cons.prems(2)]
  from s1 have l1: "cs_ligo_authz_list st1 = [] \<or> cs_ligo_authz_list st1 = ligo_entries H gd" by blast
  note s2 = Cons.IH [OF r l1]
  from s1 s2 e show ?case by (simp add: foldE_append)
qed


lemma map_fst_dict_set:
  "map fst (dict_set k v d) = (if k \<in> fst ` set d then map fst d else map fst d @ [k])"
  by (induction d) force+

lemma keys_dict_set: "fst ` set (dict_set k v d) = insert k (fst ` set d)"
proof -
  have "set (map fst (dict_set k v d)) = insert k (set (map fst d))"
    unfolding map_fst_dict_set by auto
  then show ?thesis by simp
qed

lemma distinct_dict_set: "distinct (map fst d) \<Longrightarrow> distinct (map fst (dict_set k v d))"
  unfolding map_fst_dict_set by auto

lemma defaultdict_add_entries:
  assumes "\<forall>(i, dirs) \<in> set m. distinct dirs \<and> dirs \<noteq> []"
  shows "\<forall>(i, dirs) \<in> set (defaultdict_add k d m). distinct dirs \<and> dirs \<noteq> []"
proof -
  let ?old = "get_default (map_of m k) []"
  have o: "distinct ?old"
  proof (cases "map_of m k")
    case None
    then show ?thesis by (simp add: get_default_def)
  next
    case (Some x)
    then have "(k, x) \<in> set m" by (rule map_of_SomeD)
    with assms have "distinct x" by fastforce
    with Some show ?thesis by (simp add: get_default_def)
  qed
  have v: "distinct (List.insert d ?old) \<and> List.insert d ?old \<noteq> []"
  proof (cases "d \<in> set ?old")
    case True
    then have "?old \<noteq> []" by auto
    with True o show ?thesis by simp
  next
    case False
    with o show ?thesis by simp
  qed
  have "distinct dirs \<and> dirs \<noteq> []" if "(i, dirs) \<in> set (defaultdict_add k d m)" for i dirs
  proof -
    from that have "(i, dirs) \<in> insert (k, List.insert d ?old) (set m)"
      using set_dict_set [of k "List.insert d ?old" m] unfolding defaultdict_add_def by (rule subsetD [rotated])
    then have "dirs = List.insert d ?old \<or> (i, dirs) \<in> set m" by auto
    then show ?thesis
    proof
      assume "dirs = List.insert d ?old"
      with v show ?thesis by simp
    next
      assume "(i, dirs) \<in> set m"
      with assms show ?thesis by fastforce
    qed
  qed
  then show ?thesis by auto
qed

lemma record_identity_cases:
  assumes "record_identity H d a maps = Inr maps'"
  shows "(\<not> used_in_authfile a \<and> maps' = maps)
         \<or> (\<exists>i. used_in_authfile a \<and> get_authfile_id H a = Inr i
                \<and> fst maps' = defaultdict_add i d (fst maps)
                \<and> snd maps' = dict_set i (auth_str a) (snd maps))"
proof (cases "used_in_authfile a")
  case False
  with assms show ?thesis by (simp add: record_identity_def)
next
  case True
  show ?thesis
  proof (cases "get_authfile_id H a")
    case (Inl e)
    with True assms show ?thesis by (simp add: record_identity_def)
  next
    case (Inr i)
    with True assms have "maps' = (defaultdict_add i d (fst maps), dict_set i (auth_str a) (snd maps))"
      by (simp add: record_identity_def)
    with True Inr show ?thesis by simp
  qed
qed

lemma record_identity_step:
  assumes "record_identity H d a maps = Inr maps'"
  shows "listed (fst maps') i' d' \<longleftrightarrow>
           listed (fst maps) i' d' \<or> (used_in_authfile a \<and> get_authfile_id H a = Inr i' \<and> d' = d)"
    and "map_of (snd maps') i' = Some s \<Longrightarrow>
           map_of (snd maps) i' = Some s
           \<or> (used_in_authfile a \<and> get_authfile_id H a = Inr i' \<and> auth_str a = s)"
    and "fst ` set (snd maps) = fst ` set (fst maps) \<Longrightarrow> fst ` set (snd maps') = fst ` set (fst maps')"
    and "distinct (map fst (fst maps)) \<Longrightarrow> distinct (map fst (fst maps'))"
    and "\<forall>(i, dirs) \<in> set (fst maps). distinct dirs \<and> dirs \<noteq> [] \<Longrightarrow>
           \<forall>(i, dirs) \<in> set (fst maps'). distinct dirs \<and> dirs \<noteq> []"
proof -
  note c = record_identity_cases [OF assms]
  from c show "listed (fst maps') i' d' \<longleftrightarrow>
           listed (fst maps) i' d' \<or> (used_in_authfile a \<and> get_authfile_id H a = Inr i' \<and> d' = d)"
  proof (elim disjE exE conjE)
    assume "\<not> used_in_authfile a" "maps' = maps"
    then show ?thesis by simp
  next
    fix i
    assume "used_in_authfile a" "get_authfile_id H a = Inr i"
      "fst maps' = defaultdict_add i d (fst maps)"
    then show ?thesis by (simp add: listed_defaultdict_add) blast
  qed
  from c show "map_of (snd maps') i' = Some s \<Longrightarrow>
           map_of (snd maps) i' = Some s
           \<or> (used_in_authfile a \<and> get_authfile_id H a = Inr i' \<and> auth_str a = s)"
  proof (elim disjE exE conjE)
    assume "map_of (snd maps') i' = Some s" "maps' = maps"
    then show ?thesis by simp
  next
    fix i
    assume "map_of (snd maps') i' = Some s" "used_in_authfile a" "get_authfile_id H a = Inr i"
      "snd maps' = dict_set i (auth_str a) (snd maps)"
    then show ?thesis by (simp add: map_of_dict_set split: if_splits)
  qed
  from c show "fst ` set (snd maps) = fst ` set (fst maps) \<Longrightarrow> fst ` set (snd maps') = fst ` set (fst maps')"
  proof (elim disjE exE conjE)
    assume "fst ` set (snd maps) = fst ` set (fst maps)" "maps' = maps"
    then show ?thesis by simp
  next
    fix i
    assume "fst ` set (snd maps) = fst ` set (fst maps)"
      "fst maps' = defaultdict_add i d (fst maps)" "snd maps' = dict_set i (auth_str a) (snd maps)"
    then show ?thesis by (simp add: defaultdict_add_def keys_dict_set)
  qed
  from c show "distinct (map fst (fst maps)) \<Longrightarrow> distinct (map fst (fst maps'))"
  proof (elim disjE exE conjE)
    assume "distinct (map fst (fst maps))" "maps' = maps"
    then show ?thesis by simp
  next
    fix i
    assume "distinct (map fst (fst maps))" "fst maps' = defaultdict_add i d (fst maps)"
    then show ?thesis by (simp add: defaultdict_add_def distinct_dict_set)
  qed
  from c show "\<forall>(i, dirs) \<in> set (fst maps). distinct dirs \<and> dirs \<noteq> [] \<Longrightarrow>
           \<forall>(i, dirs) \<in> set (fst maps'). distinct dirs \<and> dirs \<noteq> []"
  proof (elim disjE exE conjE)
    assume "\<forall>(i, dirs) \<in> set (fst maps). distinct dirs \<and> dirs \<noteq> []" "maps' = maps"
    then show ?thesis by simp
  next
    fix i
    assume h: "\<forall>(i, dirs) \<in> set (fst maps). distinct dirs \<and> dirs \<noteq> []"
      and m: "fst maps' = defaultdict_add i d (fst maps)"
    from defaultdict_add_entries [OF h] m show ?thesis by simp
  qed
qed

lemma foldE_record_identity:
  "foldE (\<lambda>p. record_identity H (fst p) (snd p)) ps maps = Inr maps' \<Longrightarrow>
     (listed (fst maps') i d \<longleftrightarrow>
        listed (fst maps) i d
        \<or> (\<exists>a. (d, a) \<in> set ps \<and> used_in_authfile a \<and> get_authfile_id H a = Inr i))
     \<and> (map_of (snd maps') i = Some s \<longrightarrow>
          map_of (snd maps) i = Some s
          \<or> (\<exists>d a. (d, a) \<in> set ps \<and> used_in_authfile a \<and> get_authfile_id H a = Inr i
                   \<and> auth_str a = s))
     \<and> (fst ` set (snd maps) = fst ` set (fst maps) \<longrightarrow> fst ` set (snd maps') = fst ` set (fst maps'))
     \<and> (distinct (map fst (fst maps)) \<longrightarrow> distinct (map fst (fst maps')))
     \<and> ((\<forall>(i, dirs) \<in> set (fst maps). distinct dirs \<and> dirs \<noteq> []) \<longrightarrow>
          (\<forall>(i, dirs) \<in> set (fst maps'). distinct dirs \<and> dirs \<noteq> []))"
proof (induction ps arbitrary: maps)
  case Nil
  then show ?case by simp
next
  case (Cons p ps)
  obtain d0 a0 where p: "p = (d0, a0)" by (cases p)
  from Cons.prems p obtain m1 where m1: "record_identity H d0 a0 maps = Inr m1"
    and r: "foldE (\<lambda>p. record_identity H (fst p) (snd p)) ps m1 = Inr maps'"
    by (auto split: sum.splits)
  note st = record_identity_step [OF m1]
  note ih = Cons.IH [OF r]
  from ih have ih1: "listed (fst maps') i d \<longleftrightarrow>
        listed (fst m1) i d
        \<or> (\<exists>a. (d, a) \<in> set ps \<and> used_in_authfile a \<and> get_authfile_id H a = Inr i)"
    by (rule conjunct1)
  from ih have ih2: "map_of (snd maps') i = Some s \<longrightarrow>
          map_of (snd m1) i = Some s
          \<or> (\<exists>d a. (d, a) \<in> set ps \<and> used_in_authfile a \<and> get_authfile_id H a = Inr i
                   \<and> auth_str a = s)"
    by (rule conjunct2 [THEN conjunct1])
  from ih have ih3: "fst ` set (snd m1) = fst ` set (fst m1) \<longrightarrow> fst ` set (snd maps') = fst ` set (fst maps')"
    by (rule conjunct2 [THEN conjunct2, THEN conjunct1])
  from ih have ih4: "distinct (map fst (fst m1)) \<longrightarrow> distinct (map fst (fst maps'))"
    by (rule conjunct2 [THEN conjunct2, THEN conjunct2, THEN conjunct1])
  from ih have ih5: "(\<forall>(i, dirs) \<in> set (fst m1). distinct dirs \<and> dirs \<noteq> []) \<longrightarrow>
          (\<forall>(i, dirs) \<in> set (fst maps'). distinct dirs \<and> dirs \<noteq> [])"
    by (rule conjunct2 [THEN conjunct2, THEN conjunct2, THEN conjunct2])
  have a: "listed (fst maps') i d \<longleftrightarrow>
        listed (fst maps) i d
        \<or> (\<exists>a. (d, a) \<in> set (p # ps) \<and> used_in_authfile a \<and> get_authfile_id H a = Inr i)"
  proof -
    have "(\<exists>a. (d, a) \<in> set (p # ps) \<and> used_in_authfile a \<and> get_authfile_id H a = Inr i)
        \<longleftrightarrow> (used_in_authfile a0 \<and> get_authfile_id H a0 = Inr i \<and> d = d0)
             \<or> (\<exists>a. (d, a) \<in> set ps \<and> used_in_authfile a \<and> get_authfile_id H a = Inr i)"
      unfolding p by auto
    with ih1 st(1) [of i d] show ?thesis by blast
  qed
  have b: "map_of (snd maps') i = Some s \<longrightarrow>
          map_of (snd maps) i = Some s
          \<or> (\<exists>d a. (d, a) \<in> set (p # ps) \<and> used_in_authfile a \<and> get_authfile_id H a = Inr i
                   \<and> auth_str a = s)"
  proof
    assume h: "map_of (snd maps') i = Some s"
    with ih2 have "map_of (snd m1) i = Some s
          \<or> (\<exists>d a. (d, a) \<in> set ps \<and> used_in_authfile a \<and> get_authfile_id H a = Inr i
                   \<and> auth_str a = s)" by (rule mp)
    then show "map_of (snd maps) i = Some s
          \<or> (\<exists>d a. (d, a) \<in> set (p # ps) \<and> used_in_authfile a \<and> get_authfile_id H a = Inr i
                   \<and> auth_str a = s)"
    proof
      assume "map_of (snd m1) i = Some s"
      from st(2) [OF this] have "map_of (snd maps) i = Some s
           \<or> (used_in_authfile a0 \<and> get_authfile_id H a0 = Inr i \<and> auth_str a0 = s)" .
      then show ?thesis
      proof
        assume "map_of (snd maps) i = Some s"
        then show ?thesis ..
      next
        assume "used_in_authfile a0 \<and> get_authfile_id H a0 = Inr i \<and> auth_str a0 = s"
        then have "(d0, a0) \<in> set (p # ps) \<and> used_in_authfile a0 \<and> get_authfile_id H a0 = Inr i
            \<and> auth_str a0 = s" using p by simp
        then show ?thesis by blast
      qed
    next
      assume "\<exists>d a. (d, a) \<in> set ps \<and> used_in_authfile a \<and> get_authfile_id H a = Inr i
                   \<and> auth_str a = s"
      then obtain d1 a1 where "(d1, a1) \<in> set ps" "used_in_authfile a1" "get_authfile_id H a1 = Inr i"
        "auth_str a1 = s" by blast
      then have "(d1, a1) \<in> set (p # ps) \<and> used_in_authfile a1 \<and> get_authfile_id H a1 = Inr i
            \<and> auth_str a1 = s" by simp
      then show ?thesis by blast
    qed
  qed
  have c: "fst ` set (snd maps) = fst ` set (fst maps) \<longrightarrow> fst ` set (snd maps') = fst ` set (fst maps')"
    using ih3 st(3) by blast
  have e: "distinct (map fst (fst maps)) \<longrightarrow> distinct (map fst (fst maps'))"
    using ih4 st(4) by blast
  have f: "(\<forall>(i, dirs) \<in> set (fst maps). distinct dirs \<and> dirs \<noteq> []) \<longrightarrow>
          (\<forall>(i, dirs) \<in> set (fst maps'). distinct dirs \<and> dirs \<noteq> [])"
  proof
    assume "\<forall>(i, dirs) \<in> set (fst maps). distinct dirs \<and> dirs \<noteq> []"
    from st(5) [OF this] ih5 show "\<forall>(i, dirs) \<in> set (fst maps'). distinct dirs \<and> dirs \<noteq> []"
      by (rule mp [rotated])
  qed
  from a b c e f show ?case by (intro conjI)
qed

lemma all_identity_lines_text:
  "fst ` set m \<subseteq> fst ` set s \<Longrightarrow>
     \<exists>ls. all_identity_lines tok s m = Inr ls
          \<and> concat (map (\<lambda>l. l @ ''\<newline>'') ls) = authfile_text tok s m"
proof (induction m)
  case Nil
  then show ?case by (simp add: authfile_text_def)
next
  case (Cons e m)
  from Cons.prems have "fst e \<in> fst ` set s" by simp
  then have "fst e \<in> dom (map_of s)" by (simp add: dom_map_of_conv_image_fst)
  then obtain v where v: "map_of s (fst e) = Some v" by blast
  from Cons.prems have "fst ` set m \<subseteq> fst ` set s" by simp
  from Cons.IH [OF this] obtain ls where
    ls: "all_identity_lines tok s m = Inr ls"
    "concat (map (\<lambda>l. l @ ''\<newline>'') ls) = authfile_text tok s m" by blast
  from v ls show ?case
    by (simp add: identity_lines_def authfile_text_def get_default_def)
qed

lemma record_identity_total:
  "\<exists>maps'. record_identity (Some h) d a maps = Inr maps'"
  by (cases a) (simp_all add: record_identity_def)

lemma foldE_record_identity_total:
  "\<exists>maps'. foldE (record_identity (Some h) d) al maps = Inr maps'"
proof (induction al arbitrary: maps)
  case Nil
  then show ?case by simp
next
  case (Cons a al)
  from record_identity_total [of h d a maps] obtain m1 where
    "record_identity (Some h) d a maps = Inr m1" by blast
  with Cons.IH [of m1] show ?case by simp
qed

lemma cache_authfile_namespace_total:
  "\<exists>st' ns'. cache_authfile_namespace (Some h) gd res legacy d ns st = (Inr st', ns')"
proof (cases "cache_gate ns res \<and> \<not> is_public ns")
  case False
  then show ?thesis by (auto simp: cache_authfile_namespace_def)
next
  case True
  show ?thesis
  proof (cases "d = ''/user/ligo'' \<and> legacy")
    case ligo: True
    from foldE_record_identity_total [of h d
        "authz_list ns @ fetch_ligo_authz_list_if_needed (Some h) gd (cs_ligo_authz_list st)"
        "(cs_id_to_dir st, cs_id_to_str st)"]
    obtain maps' where "foldE (record_identity (Some h) d)
        (authz_list ns @ fetch_ligo_authz_list_if_needed (Some h) gd (cs_ligo_authz_list st))
        (cs_id_to_dir st, cs_id_to_str st) = Inr maps'" by blast
    with True ligo show ?thesis by (simp add: cache_authfile_namespace_def Let_def)
  next
    case other: False
    from foldE_record_identity_total [of h d "authz_list ns" "(cs_id_to_dir st, cs_id_to_str st)"]
    obtain maps' where "foldE (record_identity (Some h) d) (authz_list ns)
        (cs_id_to_dir st, cs_id_to_str st) = Inr maps'" by blast
    with True other show ?thesis by (simp add: cache_authfile_namespace_def Let_def)
  qed
qed

lemma cache_authfile_namespaces_total:
  "\<exists>st' nss'. cache_authfile_namespaces (Some h) gd res legacy nss st = (Inr st', nss')"
proof (induction nss arbitrary: st)
  case Nil
  then show ?case by simp
next
  case (Cons e nss)
  obtain d ns where e: "e = (d, ns)" by (cases e)
  from cache_authfile_namespace_total [of h gd res legacy d ns st] obtain st1 ns1 where
    h: "cache_authfile_namespace (Some h) gd res legacy d ns st = (Inr st1, ns1)" by blast
  from Cons.IH [of st1] obtain st' rest' where
    "cache_authfile_namespaces (Some h) gd res legacy nss st1 = (Inr st', rest')" by blast
  with h e show ?case by simp
qed

lemma cache_authfile_vos_total:
  "\<exists>st' vs'. cache_authfile_vos (Some h) gd res legacy vs st = (Inr st', vs')"
proof (induction vs arbitrary: st)
  case Nil
  then show ?case by simp
next
  case (Cons e vs)
  obtain vo sc where e: "e = (vo, sc)" by (cases e)
  from cache_authfile_namespaces_total [of h gd res legacy "namespaces sc" st] obtain st1 nss1 where
    h: "cache_authfile_namespaces (Some h) gd res legacy (namespaces sc) st = (Inr st1, nss1)" by blast
  from Cons.IH [of st1] obtain st' rest' where
    "cache_authfile_vos (Some h) gd res legacy vs st1 = (Inr st', rest')" by blast
  with h e show ?case by simp
qed

lemma entries_read_iff:
  "(d, a) \<in> set (concat (map (entries_read H gd res legacy) nss)) \<longleftrightarrow>
     (\<exists>ns. (d, ns) \<in> set nss \<and> cache_gate ns res \<and> \<not> is_public ns
           \<and> a \<in> set (extended_authz_list H gd legacy d ns))"
proof (induction nss)
  case Nil
  then show ?case by simp
next
  case (Cons e nss)
  obtain d0 ns0 where e: "e = (d0, ns0)" by (cases e)
  have h: "(d, a) \<in> set (entries_read H gd res legacy (d0, ns0)) \<longleftrightarrow>
      d = d0 \<and> cache_gate ns0 res \<and> \<not> is_public ns0 \<and> a \<in> set (extended_authz_list H gd legacy d0 ns0)"
    by (auto simp: entries_read_def)
  show ?case unfolding e using h Cons.IH by auto
qed

lemma generate_cache_authfile_no_target:
  assumes "\<not> fqdn_given f"
    and "cache_authfile_vos H gd None legacy (stashcache_by_vo_name (get_vos_data gd))
           \<lparr>cs_warnings = [], cs_id_to_dir = [], cs_id_to_str = [], cs_ligo_authz_list = []\<rparr>
         = (Inr st, vos')"
    and "fst ` set (cs_id_to_str st) = fst ` set (cs_id_to_dir st)"
  shows "fst (generate_cache_authfile H gd f legacy suppress_errors) =
           (if cs_id_to_dir st = []
            then Inl (DataError ''Cache does not support any protected namespaces'')
            else Inr (cs_warnings st @ authfile_text ''rl'' (cs_id_to_str st) (cs_id_to_dir st)))"
proof -
  from assms(3) have "fst ` set (cs_id_to_dir st) \<subseteq> fst ` set (cs_id_to_str st)" by simp
  from all_identity_lines_text [OF this, of "''rl''"] obtain ls where
    ls: "all_identity_lines ''rl'' (cs_id_to_str st) (cs_id_to_dir st) = Inr ls"
    "concat (map (\<lambda>l. l @ ''\<newline>'') ls) = authfile_text ''rl'' (cs_id_to_str st) (cs_id_to_dir st)"
    by blast
  from assms(1,2) ls show ?thesis
    by (simp add: generate_cache_authfile_def Let_def)
qed

text \<open>
  C4, as stated, fails: with no \<^verbatim>\<open>fqdn\<close>, the non-public namespace \<^verbatim>\<open>/b\<close>, whose
  \<^verbatim>\<open>allowed_caches\<close> names one cache and not \<^verbatim>\<open>ANY\<close>, contributes nothing, although its
  FQAN entry has \<^verbatim>\<open>used_in_authfile\<close>: the authfile lists \<^verbatim>\<open>/a\<close> only.
\<close>

theorem no_target_needs_any_counterexample:
  "fst (generate_cache_authfile ex_hash (ex_registry [(''/a'', ex_ns_a), (''/b'', ex_ns_b)])
          None True True)
     = Inr ''# FQAN: /vo\<newline>g /vo /a rl\<newline>''
   \<and> \<not> is_public ex_ns_b \<and> used_in_authfile (FQANAuth ''/vo'')
   \<and> FQANAuth ''/vo'' \<in> set (authz_list ex_ns_b)"
  by code_simp

text \<open>
  C4, amended.  When \<^verbatim>\<open>generate_cache_authfile\<close> is called with no target node, its loop
  runs with \<^verbatim>\<open>resource = None\<close>: the node-side gate is skipped, the namespace-side gate
  is not.  A namespace without \<^verbatim>\<open>ANY\<close> in \<^verbatim>\<open>allowed_caches\<close> is passed over, state and
  namespace unchanged.  With a hash function at hand the loop over all VOs ends without
  an exception.  When it does, the state it leaves is this one.  A path is listed under an
  identity if and only if it is the path of a non-public namespace with \<^verbatim>\<open>ANY\<close> in
  \<^verbatim>\<open>allowed_caches\<close> and the identity is that of an entry with \<^verbatim>\<open>used_in_authfile\<close> of
  the list the loop reads for it: the namespace's \<^verbatim>\<open>authz_list\<close>, followed by the LIGO
  DN entries when the path is \<^verbatim>\<open>/user/ligo\<close> and \<^verbatim>\<open>legacy\<close> holds.  The comment kept
  for an identity is the \<^verbatim>\<open>str\<close> of such an entry with that identity.  The two dicts have
  the same keys, no key twice, and no identity has an empty or a repeating set of paths.
  The warnings are one line for each such namespace of path \<^verbatim>\<open>/user/ligo\<close> when
  \<^verbatim>\<open>legacy\<close> does not hold.  The call then raises the \<^verbatim>\<open>DataError\<close> when no identity
  was collected, and otherwise returns the warnings followed by the comment and the line
  of each identity.
\<close>

theorem no_target_contributions:
  "(ANY \<notin> set (allowed_caches ns_any) \<longrightarrow>
      cache_authfile_namespace H gd None legacy d_any ns_any st_any = (Inr st_any, ns_any))
   \<and> (H \<noteq> None \<longrightarrow>
        (\<exists>st_r vos_r.
           cache_authfile_vos H gd None legacy (stashcache_by_vo_name (get_vos_data gd))
             \<lparr>cs_warnings = [], cs_id_to_dir = [], cs_id_to_str = [], cs_ligo_authz_list = []\<rparr>
             = (Inr st_r, vos_r)))
   \<and> (cache_authfile_vos H gd None legacy (stashcache_by_vo_name (get_vos_data gd))
         \<lparr>cs_warnings = [], cs_id_to_dir = [], cs_id_to_str = [], cs_ligo_authz_list = []\<rparr>
        = (Inr st, vos') \<longrightarrow>
       (\<forall>i d. listed (cs_id_to_dir st) i d \<longleftrightarrow>
          (\<exists>ns a. (d, ns) \<in> set (all_namespaces (get_vos_data gd))
                 \<and> \<not> is_public ns \<and> ANY \<in> set (allowed_caches ns)
                 \<and> a \<in> set (extended_authz_list H gd legacy d ns)
                 \<and> used_in_authfile a \<and> get_authfile_id H a = Inr i))
       \<and> (\<forall>i s. map_of (cs_id_to_str st) i = Some s \<longrightarrow>
            (\<exists>d ns a. (d, ns) \<in> set (all_namespaces (get_vos_data gd))
                 \<and> \<not> is_public ns \<and> ANY \<in> set (allowed_caches ns)
                 \<and> a \<in> set (extended_authz_list H gd legacy d ns)
                 \<and> used_in_authfile a \<and> get_authfile_id H a = Inr i \<and> auth_str a = s))
       \<and> fst ` set (cs_id_to_str st) = fst ` set (cs_id_to_dir st)
       \<and> distinct (map fst (cs_id_to_dir st))
       \<and> (\<forall>(i, dirs) \<in> set (cs_id_to_dir st). distinct dirs \<and> dirs \<noteq> [])
       \<and> cs_warnings st = concat (map (ligo_warning None legacy) (all_namespaces (get_vos_data gd)))
       \<and> (\<not> fqdn_given f \<longrightarrow>
            fst (generate_cache_authfile H gd f legacy suppress_errors) =
              (if cs_id_to_dir st = []
               then Inl (DataError ''Cache does not support any protected namespaces'')
               else Inr (cs_warnings st
                         @ authfile_text ''rl'' (cs_id_to_str st) (cs_id_to_dir st)))))"
proof (intro conjI impI)
  assume "ANY \<notin> set (allowed_caches ns_any)"
  then show "cache_authfile_namespace H gd None legacy d_any ns_any st_any = (Inr st_any, ns_any)"
    by (simp add: cache_authfile_namespace_def cache_gate_None)
next
  assume "H \<noteq> None"
  then obtain h where "H = Some h" by blast
  with cache_authfile_vos_total [of h gd None legacy "stashcache_by_vo_name (get_vos_data gd)"]
  show "\<exists>st_r vos_r.
           cache_authfile_vos H gd None legacy (stashcache_by_vo_name (get_vos_data gd))
             \<lparr>cs_warnings = [], cs_id_to_dir = [], cs_id_to_str = [], cs_ligo_authz_list = []\<rparr>
             = (Inr st_r, vos_r)" by simp
next
  let ?init = "\<lparr>cs_warnings = [], cs_id_to_dir = [], cs_id_to_str = [], cs_ligo_authz_list = []\<rparr>"
  let ?ps = "concat (map (entries_read H gd None legacy) (all_namespaces (get_vos_data gd)))"
  assume r: "cache_authfile_vos H gd None legacy (stashcache_by_vo_name (get_vos_data gd)) ?init
        = (Inr st, vos')"
  have "cs_ligo_authz_list ?init = [] \<or> cs_ligo_authz_list ?init = ligo_entries H gd" by simp
  from cache_authfile_vos_reads [OF r this]
  have fold: "foldE (\<lambda>p. record_identity H (fst p) (snd p)) ?ps ([], [])
      = Inr (cs_id_to_dir st, cs_id_to_str st)"
    and w: "cs_warnings st = concat (map (ligo_warning None legacy) (all_namespaces (get_vos_data gd)))"
    by (simp_all add: all_namespaces_def)
  note ch = foldE_record_identity [OF fold]
  have mem: "(d, a) \<in> set ?ps \<longleftrightarrow>
      (\<exists>ns. (d, ns) \<in> set (all_namespaces (get_vos_data gd)) \<and> \<not> is_public ns
           \<and> ANY \<in> set (allowed_caches ns) \<and> a \<in> set (extended_authz_list H gd legacy d ns))" for d a
    unfolding entries_read_iff cache_gate_None by blast
  show "\<forall>i d. listed (cs_id_to_dir st) i d \<longleftrightarrow>
          (\<exists>ns a. (d, ns) \<in> set (all_namespaces (get_vos_data gd))
                 \<and> \<not> is_public ns \<and> ANY \<in> set (allowed_caches ns)
                 \<and> a \<in> set (extended_authz_list H gd legacy d ns)
                 \<and> used_in_authfile a \<and> get_authfile_id H a = Inr i)"
  proof (intro allI)
    fix i d
    from ch [of i d, THEN conjunct1]
    have "listed (cs_id_to_dir st) i d \<longleftrightarrow>
        (\<exists>a. (d, a) \<in> set ?ps \<and> used_in_authfile a \<and> get_authfile_id H a = Inr i)"
      by (simp add: listed_def)
    then show "listed (cs_id_to_dir st) i d \<longleftrightarrow>
          (\<exists>ns a. (d, ns) \<in> set (all_namespaces (get_vos_data gd))
                 \<and> \<not> is_public ns \<and> ANY \<in> set (allowed_caches ns)
                 \<and> a \<in> set (extended_authz_list H gd legacy d ns)
                 \<and> used_in_authfile a \<and> get_authfile_id H a = Inr i)"
      unfolding mem by blast
  qed
  show "\<forall>i s. map_of (cs_id_to_str st) i = Some s \<longrightarrow>
            (\<exists>d ns a. (d, ns) \<in> set (all_namespaces (get_vos_data gd))
                 \<and> \<not> is_public ns \<and> ANY \<in> set (allowed_caches ns)
                 \<and> a \<in> set (extended_authz_list H gd legacy d ns)
                 \<and> used_in_authfile a \<and> get_authfile_id H a = Inr i \<and> auth_str a = s)"
  proof (intro allI impI)
    fix i s
    assume h: "map_of (cs_id_to_str st) i = Some s"
    from ch [of i "[]" s, THEN conjunct2, THEN conjunct1] h
    have "\<exists>d a. (d, a) \<in> set ?ps \<and> used_in_authfile a \<and> get_authfile_id H a = Inr i
        \<and> auth_str a = s" by simp
    then show "\<exists>d ns a. (d, ns) \<in> set (all_namespaces (get_vos_data gd))
                 \<and> \<not> is_public ns \<and> ANY \<in> set (allowed_caches ns)
                 \<and> a \<in> set (extended_authz_list H gd legacy d ns)
                 \<and> used_in_authfile a \<and> get_authfile_id H a = Inr i \<and> auth_str a = s"
      unfolding mem by blast
  qed
  from ch [of "[]" "[]" "[]", THEN conjunct2, THEN conjunct2, THEN conjunct1]
  show keys: "fst ` set (cs_id_to_str st) = fst ` set (cs_id_to_dir st)" by simp
  from ch [of "[]" "[]" "[]", THEN conjunct2, THEN conjunct2, THEN conjunct2, THEN conjunct1]
  show "distinct (map fst (cs_id_to_dir st))" by simp
  from ch [of "[]" "[]" "[]", THEN conjunct2, THEN conjunct2, THEN conjunct2, THEN conjunct2]
  show "\<forall>(i, dirs) \<in> set (cs_id_to_dir st). distinct dirs \<and> dirs \<noteq> []" by simp
  from w show "cs_warnings st = concat (map (ligo_warning None legacy) (all_namespaces (get_vos_data gd)))" .
  assume nf: "\<not> fqdn_given f"
  from generate_cache_authfile_no_target [OF nf r keys]
  show "fst (generate_cache_authfile H gd f legacy suppress_errors) =
              (if cs_id_to_dir st = []
               then Inl (DataError ''Cache does not support any protected namespaces'')
               else Inr (cs_warnings st
                         @ authfile_text ''rl'' (cs_id_to_str st) (cs_id_to_dir st)))" .
qed

theorem no_target_contributions_witness:
  "cache_authfile_namespace ex_hash
       (ex_registry [(''/a'', ex_ns_a), (''/b'', ex_ns_b), (''/user/ligo'', ex_ns_ligo)]) None True
       ''/b'' ex_ns_b \<lparr>cs_warnings = [], cs_id_to_dir = [], cs_id_to_str = [], cs_ligo_authz_list = []\<rparr>
     = (Inr \<lparr>cs_warnings = [], cs_id_to_dir = [], cs_id_to_str = [], cs_ligo_authz_list = []\<rparr>, ex_ns_b)
   \<and> (\<exists>st_r vos_r.
         cache_authfile_vos ex_hash
           (ex_registry [(''/a'', ex_ns_a), (''/b'', ex_ns_b), (''/user/ligo'', ex_ns_ligo)]) None True
           (stashcache_by_vo_name (get_vos_data
              (ex_registry [(''/a'', ex_ns_a), (''/b'', ex_ns_b), (''/user/ligo'', ex_ns_ligo)])))
           \<lparr>cs_warnings = [], cs_id_to_dir = [], cs_id_to_str = [], cs_ligo_authz_list = []\<rparr>
         = (Inr st_r, vos_r))
   \<and> (\<exists>ns a. (''/user/ligo'', ns) \<in> set (all_namespaces (get_vos_data
                 (ex_registry [(''/a'', ex_ns_a), (''/b'', ex_ns_b), (''/user/ligo'', ex_ns_ligo)])))
            \<and> \<not> is_public ns \<and> ANY \<in> set (allowed_caches ns)
            \<and> a \<in> set (extended_authz_list ex_hash
                 (ex_registry [(''/a'', ex_ns_a), (''/b'', ex_ns_b), (''/user/ligo'', ex_ns_ligo)])
                 True ''/user/ligo'' ns)
            \<and> used_in_authfile a \<and> get_authfile_id ex_hash a = Inr ''u h:/CN=alice'')
   \<and> \<not> (\<exists>ns a. (''/b'', ns) \<in> set (all_namespaces (get_vos_data
                 (ex_registry [(''/a'', ex_ns_a), (''/b'', ex_ns_b), (''/user/ligo'', ex_ns_ligo)])))
            \<and> \<not> is_public ns \<and> ANY \<in> set (allowed_caches ns)
            \<and> a \<in> set (extended_authz_list ex_hash
                 (ex_registry [(''/a'', ex_ns_a), (''/b'', ex_ns_b), (''/user/ligo'', ex_ns_ligo)])
                 True ''/b'' ns)
            \<and> used_in_authfile a \<and> get_authfile_id ex_hash a = Inr ''g /vo'')
   \<and> fst (generate_cache_authfile ex_hash
            (ex_registry [(''/a'', ex_ns_a), (''/b'', ex_ns_b), (''/user/ligo'', ex_ns_ligo)])
            None True True)
       = Inr (''# FQAN: /vo\<newline>g /vo /a rl\<newline>''
              @ ''# FQAN: /ligo\<newline>g /ligo /user/ligo rl\<newline>''
              @ ''# DN: /CN=alice\<newline>u h:/CN=alice /user/ligo rl\<newline>'')"
proof -
  let ?gd = "ex_registry [(''/a'', ex_ns_a), (''/b'', ex_ns_b), (''/user/ligo'', ex_ns_ligo)]"
  let ?init = "\<lparr>cs_warnings = [], cs_id_to_dir = [], cs_id_to_str = [], cs_ligo_authz_list = []\<rparr>"
  let ?st = "\<lparr>cs_warnings = [],
              cs_id_to_dir = [(''g /vo'', [''/a'']), (''g /ligo'', [''/user/ligo'']),
                              (''u h:/CN=alice'', [''/user/ligo''])],
              cs_id_to_str = [(''g /vo'', ''FQAN: /vo''), (''g /ligo'', ''FQAN: /ligo''),
                              (''u h:/CN=alice'', ''DN: /CN=alice'')],
              cs_ligo_authz_list = [DNAuth ''/CN=alice'']\<rparr>"
  let ?vos = "[(''vo'', \<lparr>sc_vo_name = ''vo'',
                  namespaces = [(''/a'', ex_ns_a), (''/b'', ex_ns_b),
                                (''/user/ligo'', ex_ns_ligo\<lparr>authz_list :=
                                    [FQANAuth ''/ligo'', DNAuth ''/CN=alice'']\<rparr>)],
                  errors = []\<rparr>)]"
  have run: "cache_authfile_vos ex_hash ?gd None True (stashcache_by_vo_name (get_vos_data ?gd)) ?init
      = (Inr ?st, ?vos)"
    by code_simp
  have b: "ANY \<notin> set (allowed_caches ex_ns_b)" by code_simp
  have hh: "ex_hash \<noteq> None" by (simp add: ex_hash_def)
  have g: "\<not> fqdn_given None" by (simp add: fqdn_given_def)
  have l1: "listed (cs_id_to_dir ?st) ''u h:/CN=alice'' ''/user/ligo''" by (simp add: listed_def)
  have l2: "\<not> listed (cs_id_to_dir ?st) ''g /vo'' ''/b''" by (simp add: listed_def)
  have o: "(if cs_id_to_dir ?st = []
            then Inl (DataError ''Cache does not support any protected namespaces'')
            else Inr (cs_warnings ?st @ authfile_text ''rl'' (cs_id_to_str ?st) (cs_id_to_dir ?st)))
      = Inr (''# FQAN: /vo\<newline>g /vo /a rl\<newline>''
              @ ''# FQAN: /ligo\<newline>g /ligo /user/ligo rl\<newline>''
              @ ''# DN: /CN=alice\<newline>u h:/CN=alice /user/ligo rl\<newline>'')"
    by code_simp
  note t = no_target_contributions [where ns_any = ex_ns_b and H = ex_hash and gd = ?gd
      and legacy = True and d_any = "''/b''" and st_any = ?init and st = ?st and vos' = ?vos
      and f = None and suppress_errors = True]
  from t [THEN conjunct1, THEN mp, OF b]
  have c1: "cache_authfile_namespace ex_hash ?gd None True ''/b'' ex_ns_b ?init = (Inr ?init, ex_ns_b)" .
  from t [THEN conjunct2, THEN conjunct1, THEN mp, OF hh]
  have c2: "\<exists>st_r vos_r.
         cache_authfile_vos ex_hash ?gd None True (stashcache_by_vo_name (get_vos_data ?gd)) ?init
         = (Inr st_r, vos_r)" .
  note u = t [THEN conjunct2, THEN conjunct2, THEN mp, OF run]
  note iff = u [THEN conjunct1]
  from iff [THEN spec, THEN spec, THEN iffD1, OF l1]
  have c3: "\<exists>ns a. (''/user/ligo'', ns) \<in> set (all_namespaces (get_vos_data ?gd))
            \<and> \<not> is_public ns \<and> ANY \<in> set (allowed_caches ns)
            \<and> a \<in> set (extended_authz_list ex_hash ?gd True ''/user/ligo'' ns)
            \<and> used_in_authfile a \<and> get_authfile_id ex_hash a = Inr ''u h:/CN=alice''" .
  have c4: "\<not> (\<exists>ns a. (''/b'', ns) \<in> set (all_namespaces (get_vos_data ?gd))
            \<and> \<not> is_public ns \<and> ANY \<in> set (allowed_caches ns)
            \<and> a \<in> set (extended_authz_list ex_hash ?gd True ''/b'' ns)
            \<and> used_in_authfile a \<and> get_authfile_id ex_hash a = Inr ''g /vo'')"
  proof
    assume "\<exists>ns a. (''/b'', ns) \<in> set (all_namespaces (get_vos_data ?gd))
            \<and> \<not> is_public ns \<and> ANY \<in> set (allowed_caches ns)
            \<and> a \<in> set (extended_authz_list ex_hash ?gd True ''/b'' ns)
            \<and> used_in_authfile a \<and> get_authfile_id ex_hash a = Inr ''g /vo''"
    from iff [THEN spec, THEN spec, THEN iffD2, OF this] l2 show False by (rule notE [rotated])
  qed
  from u [THEN conjunct2, THEN conjunct2, THEN conjunct2, THEN conjunct2, THEN conjunct2,
          THEN conjunct2, THEN mp, OF g]
  have c5: "fst (generate_cache_authfile ex_hash ?gd None True True)
       = Inr (''# FQAN: /vo\<newline>g /vo /a rl\<newline>''
              @ ''# FQAN: /ligo\<newline>g /ligo /user/ligo rl\<newline>''
              @ ''# DN: /CN=alice\<newline>u h:/CN=alice /user/ligo rl\<newline>'')"
    unfolding o .
  from c1 c2 c3 c4 c5 show ?thesis by (intro conjI)
qed

subsection \<open>The snapshot after a call\<close>

text \<open>
  C5 does not hold of \<^verbatim>\<open>generate_cache_authfile\<close>.  On a registry with the non-public
  namespace \<^verbatim>\<open>/user/ligo\<close>, a call with \<^verbatim>\<open>legacy\<close> true leaves the namespace's
  \<^verbatim>\<open>authz_list\<close> extended by the LIGO DN entries; and the call with \<^verbatim>\<open>legacy\<close> false,
  which on the fresh snapshot lists the FQAN identity only, lists the LIGO DN as well
  when it comes after that call.
\<close>

theorem cache_authfile_extends_ligo_authz_list:
  "authz_list ex_ns_ligo = [FQANAuth ''/ligo'']
   \<and> map (\<lambda>entry. authz_list (snd entry))
         (all_namespaces (get_vos_data (snd (generate_cache_authfile ex_hash
            (ex_registry [(''/user/ligo'', ex_ns_ligo)]) None True True))))
       = [[FQANAuth ''/ligo'', DNAuth ''/CN=alice'']]
   \<and> fst (generate_cache_authfile ex_hash (ex_registry [(''/user/ligo'', ex_ns_ligo)]) None False True)
       = Inr ''# LIGO DNs unavailable\<newline># FQAN: /ligo\<newline>g /ligo /user/ligo rl\<newline>''
   \<and> fst (generate_cache_authfile ex_hash
            (snd (generate_cache_authfile ex_hash (ex_registry [(''/user/ligo'', ex_ns_ligo)])
                    None True True)) None False True)
       = Inr (''# LIGO DNs unavailable\<newline># FQAN: /ligo\<newline>g /ligo /user/ligo rl\<newline>''
              @ ''# DN: /CN=alice\<newline>u h:/CN=alice /user/ligo rl\<newline>'')"
  by code_simp

subsection \<open>The origin authfile of a public origin\<close>

lemma origin_namespace_public_mode:
  "\<exists>st'. origin_authfile_namespace H topo origin True vo (d, ns) st = Inr st'
     \<and> os_id_to_paths st' = os_id_to_paths st \<and> os_id_to_str st' = os_id_to_str st
     \<and> os_warnings st' = os_warnings st
     \<and> (distinct (os_public_paths st) \<longrightarrow> distinct (os_public_paths st'))
     \<and> set (os_public_paths st') =
         set (os_public_paths st) \<union> (if origin_gate ns origin \<and> is_public ns then {d} else {})"
  by (cases origin)
     (auto simp: origin_authfile_namespace_def origin_gate_def namespace_allows_origin_resource_def)

lemma origin_namespaces_public_mode:
  "\<exists>st'. foldE (origin_authfile_namespace H topo origin True vo) nss st = Inr st'
     \<and> os_id_to_paths st' = os_id_to_paths st \<and> os_id_to_str st' = os_id_to_str st
     \<and> os_warnings st' = os_warnings st
     \<and> (distinct (os_public_paths st) \<longrightarrow> distinct (os_public_paths st'))
     \<and> set (os_public_paths st') =
         set (os_public_paths st) \<union> {d. \<exists>ns. (d, ns) \<in> set nss \<and> origin_gate ns origin \<and> is_public ns}"
proof (induction nss arbitrary: st)
  case Nil
  then show ?case by simp
next
  case (Cons e nss)
  obtain d ns where e: "e = (d, ns)" by (cases e)
  from origin_namespace_public_mode [of H topo origin vo d ns st]
  obtain st1 where s1: "origin_authfile_namespace H topo origin True vo (d, ns) st = Inr st1"
    "os_id_to_paths st1 = os_id_to_paths st" "os_id_to_str st1 = os_id_to_str st"
    "os_warnings st1 = os_warnings st"
    "distinct (os_public_paths st) \<longrightarrow> distinct (os_public_paths st1)"
    "set (os_public_paths st1) =
         set (os_public_paths st) \<union> (if origin_gate ns origin \<and> is_public ns then {d} else {})"
    by blast
  from Cons.IH [of st1]
  obtain st' where s2: "foldE (origin_authfile_namespace H topo origin True vo) nss st1 = Inr st'"
    "os_id_to_paths st' = os_id_to_paths st1" "os_id_to_str st' = os_id_to_str st1"
    "os_warnings st' = os_warnings st1"
    "distinct (os_public_paths st1) \<longrightarrow> distinct (os_public_paths st')"
    "set (os_public_paths st') =
         set (os_public_paths st1) \<union> {d. \<exists>ns. (d, ns) \<in> set nss \<and> origin_gate ns origin \<and> is_public ns}"
    by blast
  have "set (os_public_paths st') =
         set (os_public_paths st) \<union> {d. \<exists>ns. (d, ns) \<in> set (e # nss) \<and> origin_gate ns origin \<and> is_public ns}"
    using s1(6) s2(6) e by auto
  with s1 s2 e show ?case by simp
qed

lemma origin_vos_public_mode:
  "\<exists>st'. foldE (\<lambda>vo_entry. foldE (origin_authfile_namespace H topo origin True (fst vo_entry))
                           (namespaces (snd vo_entry))) vs st = Inr st'
     \<and> os_id_to_paths st' = os_id_to_paths st \<and> os_id_to_str st' = os_id_to_str st
     \<and> os_warnings st' = os_warnings st
     \<and> (distinct (os_public_paths st) \<longrightarrow> distinct (os_public_paths st'))
     \<and> set (os_public_paths st') =
         set (os_public_paths st)
         \<union> {d. \<exists>ns. (d, ns) \<in> set (concat (map (\<lambda>vo_entry. namespaces (snd vo_entry)) vs))
                  \<and> origin_gate ns origin \<and> is_public ns}"
proof (induction vs arbitrary: st)
  case Nil
  then show ?case by simp
next
  case (Cons e vs)
  from origin_namespaces_public_mode [of H topo origin "fst e" "namespaces (snd e)" st]
  obtain st1 where s1: "foldE (origin_authfile_namespace H topo origin True (fst e)) (namespaces (snd e)) st
      = Inr st1"
    "os_id_to_paths st1 = os_id_to_paths st" "os_id_to_str st1 = os_id_to_str st"
    "os_warnings st1 = os_warnings st"
    "distinct (os_public_paths st) \<longrightarrow> distinct (os_public_paths st1)"
    "set (os_public_paths st1) =
         set (os_public_paths st) \<union> {d. \<exists>ns. (d, ns) \<in> set (namespaces (snd e)) \<and> origin_gate ns origin \<and> is_public ns}"
    by blast
  from Cons.IH [of st1]
  obtain st' where s2: "foldE (\<lambda>vo_entry. foldE (origin_authfile_namespace H topo origin True (fst vo_entry))
                           (namespaces (snd vo_entry))) vs st1 = Inr st'"
    "os_id_to_paths st' = os_id_to_paths st1" "os_id_to_str st' = os_id_to_str st1"
    "os_warnings st' = os_warnings st1"
    "distinct (os_public_paths st1) \<longrightarrow> distinct (os_public_paths st')"
    "set (os_public_paths st') =
         set (os_public_paths st1)
         \<union> {d. \<exists>ns. (d, ns) \<in> set (concat (map (\<lambda>vo_entry. namespaces (snd vo_entry)) vs))
                  \<and> origin_gate ns origin \<and> is_public ns}"
    by blast
  have "set (os_public_paths st') =
         set (os_public_paths st)
         \<union> {d. \<exists>ns. (d, ns) \<in> set (concat (map (\<lambda>vo_entry. namespaces (snd vo_entry)) (e # vs)))
                  \<and> origin_gate ns origin \<and> is_public ns}"
    using s1(6) s2(6) by auto
  with s1 s2 show ?case by simp
qed

lemma origin_collect_public_mode:
  "\<exists>st. origin_authfile_collect H topo origin True vd = Inr st
     \<and> os_id_to_paths st = [] \<and> os_id_to_str st = [] \<and> os_warnings st = []
     \<and> distinct (os_public_paths st)
     \<and> set (os_public_paths st) =
         {d. \<exists>ns. (d, ns) \<in> set (all_namespaces vd) \<and> origin_gate ns origin \<and> is_public ns}"
  using origin_vos_public_mode [of H topo origin "stashcache_by_vo_name vd"
      "\<lparr>os_public_paths = [], os_id_to_paths = [], os_id_to_str = [], os_warnings = []\<rparr>"]
  by (auto simp: origin_authfile_collect_def all_namespaces_def)

text \<open>
  C7.  In \<^verbatim>\<open>generate_origin_authfile\<close> with \<^verbatim>\<open>public_origin\<close> true, the list of lines
  is the warnings, then the comment and line of every identity, then, only when the set
  of public paths is not empty, an empty line and the one \<^verbatim>\<open>u *\<close> line with the paths
  sorted and the token \<^verbatim>\<open>lr\<close>.  In that mode no warning and no identity is ever
  collected, so a non-empty output is exactly an empty line followed by the \<^verbatim>\<open>u *\<close>
  line over the public paths that pass the gate; with no such path there is no output
  at all, the call raises the \<^verbatim>\<open>DataError\<close>.
\<close>

theorem public_origin_block_last:
  "(origin_authfile_lines True st = Inr ls \<longrightarrow>
      (\<exists>ids. all_identity_lines ''lr'' (os_id_to_str st) (os_id_to_paths st) = Inr ids
         \<and> ls = (os_warnings st @ ids)
                @ (if os_public_paths st = [] then []
                   else ['''', ''u * '' @ py_join '' '' (map (\<lambda>p. p @ '' lr'')
                                                        (sort (os_public_paths st)))])))
   \<and> (generate_origin_authfile H gd f suppress_errors True = Inr out \<longrightarrow>
        out = '''' \<or>
        (\<exists>origin paths.
           get_origin_resource f (get_topology gd) suppress_errors = Inr origin
           \<and> paths \<noteq> [] \<and> sorted paths \<and> distinct paths
           \<and> set paths = {d. \<exists>ns. (d, ns) \<in> set (all_namespaces (get_vos_data gd))
                                \<and> origin_gate ns origin \<and> is_public ns}
           \<and> out = ''\<newline>u * '' @ py_join '' '' (map (\<lambda>p. p @ '' lr'') paths) @ ''\<newline>''))
   \<and> ((if fqdn_given f
        then get_origin_resource f (get_topology gd) suppress_errors = Inr origin \<and> origin \<noteq> None
        else origin = None) \<longrightarrow>
       (\<forall>(d, ns) \<in> set (all_namespaces (get_vos_data gd)). \<not> (origin_gate ns origin \<and> is_public ns)) \<longrightarrow>
       generate_origin_authfile H gd f suppress_errors True
         = Inl (DataError ''Origin does not support any namespaces''))"
proof (intro conjI impI)
  assume "origin_authfile_lines True st = Inr ls"
  then show "\<exists>ids. all_identity_lines ''lr'' (os_id_to_str st) (os_id_to_paths st) = Inr ids
         \<and> ls = (os_warnings st @ ids)
                @ (if os_public_paths st = [] then []
                   else ['''', ''u * '' @ py_join '' '' (map (\<lambda>p. p @ '' lr'')
                                                        (sort (os_public_paths st)))])"
    by (auto simp: origin_authfile_lines_def paths_acl_def split: sum.splits)
next
  assume g: "generate_origin_authfile H gd f suppress_errors True = Inr out"
  show "out = '''' \<or>
        (\<exists>origin paths.
           get_origin_resource f (get_topology gd) suppress_errors = Inr origin
           \<and> paths \<noteq> [] \<and> sorted paths \<and> distinct paths
           \<and> set paths = {d. \<exists>ns. (d, ns) \<in> set (all_namespaces (get_vos_data gd))
                                \<and> origin_gate ns origin \<and> is_public ns}
           \<and> out = ''\<newline>u * '' @ py_join '' '' (map (\<lambda>p. p @ '' lr'') paths) @ ''\<newline>'')"
  proof (cases "out = ''''")
    case True
    then show ?thesis by simp
  next
    case False
    from g False obtain origin where
      o: "(if fqdn_given f then get_origin_resource f (get_topology gd) suppress_errors
            else Inr None) = Inr origin" "\<not> (fqdn_given f \<and> origin = None)"
      by (auto simp: generate_origin_authfile_def split: sum.splits if_splits)
    from origin_collect_public_mode [of H "get_topology gd" origin "get_vos_data gd"]
    obtain st where st: "origin_authfile_collect H (get_topology gd) origin True (get_vos_data gd) = Inr st"
      "os_id_to_paths st = []" "os_id_to_str st = []" "os_warnings st = []"
      "distinct (os_public_paths st)"
      "set (os_public_paths st) =
         {d. \<exists>ns. (d, ns) \<in> set (all_namespaces (get_vos_data gd)) \<and> origin_gate ns origin \<and> is_public ns}"
      by blast
    from g o st have ne: "os_public_paths st \<noteq> []"
      by (auto simp: generate_origin_authfile_def split: if_splits)
    from g o st ne have t: "out = ''\<newline>u * '' @ py_join '' '' (map (\<lambda>p. p @ '' lr'')
        (sort (os_public_paths st))) @ ''\<newline>''"
      by (auto simp: generate_origin_authfile_def origin_authfile_lines_def paths_acl_def
            split: if_splits)
    have fg: "fqdn_given f"
    proof (rule ccontr)
      assume "\<not> fqdn_given f"
      with o have "origin = None" by simp
      with st(6) ne show False by (simp add: origin_gate_def)
    qed
    with o have l: "get_origin_resource f (get_topology gd) suppress_errors = Inr origin" by simp
    have "sort (os_public_paths st) \<noteq> []" using ne by (metis set_empty set_sort)
    moreover have "sorted (sort (os_public_paths st))" by simp
    moreover have "distinct (sort (os_public_paths st))" using st(5) by simp
    moreover have "set (sort (os_public_paths st)) =
        {d. \<exists>ns. (d, ns) \<in> set (all_namespaces (get_vos_data gd)) \<and> origin_gate ns origin \<and> is_public ns}"
      using st(6) by simp
    ultimately show ?thesis using t l by blast
  qed
next
  assume t: "if fqdn_given f
        then get_origin_resource f (get_topology gd) suppress_errors = Inr origin \<and> origin \<noteq> None
        else origin = None"
    and n: "\<forall>(d, ns) \<in> set (all_namespaces (get_vos_data gd)). \<not> (origin_gate ns origin \<and> is_public ns)"
  from origin_collect_public_mode [of H "get_topology gd" origin "get_vos_data gd"]
  obtain st where st: "origin_authfile_collect H (get_topology gd) origin True (get_vos_data gd) = Inr st"
      "os_id_to_paths st = []"
      "set (os_public_paths st) =
         {d. \<exists>ns. (d, ns) \<in> set (all_namespaces (get_vos_data gd)) \<and> origin_gate ns origin \<and> is_public ns}"
    by blast
  from st(3) n have "set (os_public_paths st) = {}" by auto
  then have "os_public_paths st = []" by simp
  with st t show "generate_origin_authfile H gd f suppress_errors True
         = Inl (DataError ''Origin does not support any namespaces'')"
    by (auto simp: generate_origin_authfile_def split: if_splits)
qed

theorem public_origin_block_last_witness:
  "origin_authfile_lines True
     \<lparr>os_public_paths = [''/q'', ''/p''], os_id_to_paths = [(''u h'', [''/a''])],
      os_id_to_str = [(''u h'', ''DN: x'')], os_warnings = [''# w'']\<rparr>
     = Inr [''# w'', ''# DN: x'', ''u h /a lr'', '''', ''u * /p lr /q lr'']
   \<and> generate_origin_authfile ex_hash (ex_registry [(''/a'', ex_ns_a), (''/p'', ex_ns_public)])
        (Some ''o1.example.org'') True True = Inr ''\<newline>u * /p lr\<newline>''
   \<and> generate_origin_authfile ex_hash (ex_registry [(''/a'', ex_ns_a)])
        (Some ''o1.example.org'') True True = Inl (DataError ''Origin does not support any namespaces'')"
proof -
  let ?st = "\<lparr>os_public_paths = [''/q'', ''/p''], os_id_to_paths = [(''u h'', [''/a''])],
      os_id_to_str = [(''u h'', ''DN: x'')], os_warnings = [''# w'']\<rparr>"
  let ?gd = "ex_registry [(''/a'', ex_ns_a), (''/p'', ex_ns_public)]"
  let ?ga = "ex_registry [(''/a'', ex_ns_a)]"
  have a: "origin_authfile_lines True ?st
     = Inr [''# w'', ''# DN: x'', ''u h /a lr'', '''', ''u * /p lr /q lr'']" by code_simp
  have b: "generate_origin_authfile ex_hash ?gd (Some ''o1.example.org'') True True
     = Inr ''\<newline>u * /p lr\<newline>''" by code_simp
  have c: "fqdn_given (Some ''o1.example.org'')
    \<and> get_origin_resource (Some ''o1.example.org'') (get_topology ?ga) True = Inr (Some ex_origin)"
    by code_simp
  have d: "\<forall>(d, ns) \<in> set (all_namespaces (get_vos_data ?ga)).
      \<not> (origin_gate ns (Some ex_origin) \<and> is_public ns)"
    by (simp add: all_namespaces_def is_public_def ex_defs)
  note t1 = public_origin_block_last [where st = ?st
      and ls = "[''# w'', ''# DN: x'', ''u h /a lr'', '''', ''u * /p lr /q lr'']"
      and H = ex_hash and gd = ?gd and f = "Some ''o1.example.org''" and suppress_errors = True
      and out = "''\<newline>u * /p lr\<newline>''" and origin = "Some ex_origin"]
  note t2 = public_origin_block_last [where H = ex_hash and gd = ?ga and f = "Some ''o1.example.org''"
      and suppress_errors = True and origin = "Some ex_origin",
      THEN conjunct2, THEN conjunct2, THEN mp, THEN mp]
  have e: "generate_origin_authfile ex_hash ?ga (Some ''o1.example.org'') True True
      = Inl (DataError ''Origin does not support any namespaces'')"
    by (rule t2) (use c d in auto)
  from t1 a b e show ?thesis by simp
qed

subsection \<open>Loading a VO: duplicate paths\<close>

lemma parse_authz_None_iff: "parse_authz H fmt item = None \<longleftrightarrow> item = AuthzDict []"
  by (auto simp: parse_authz_def parse_authz_dict_def
           split: authz_item.splits list.splits authz_entry.splits option.splits)

lemma parse_authz_list_loop_total:
  "\<forall>item \<in> set items. item \<noteq> AuthzDict [] \<Longrightarrow>
     \<exists>al errs'. parse_authz_list_loop H fmt p items acc errs = Inr (al, errs')"
proof (induction items arbitrary: acc errs)
  case Nil
  then show ?case by simp
next
  case (Cons item items)
  from Cons.prems have "parse_authz H fmt item \<noteq> None" by (simp add: parse_authz_None_iff)
  then obtain a e where pa: "parse_authz H fmt item = Some (a, e)" by auto
  from Cons.prems have r: "\<forall>item \<in> set items. item \<noteq> AuthzDict []" by simp
  show ?case using pa Cons.IH [OF r] by simp
qed

lemma parse_authz_list_loop_errors_mono:
  "parse_authz_list_loop H fmt p items acc errs = Inr (al, errs') \<Longrightarrow> set errs \<subseteq> set errs'"
proof (induction items arbitrary: acc errs)
  case Nil
  then show ?case by simp
next
  case (Cons item items)
  from Cons.prems obtain a e where pa: "parse_authz H fmt item = Some (a, e)"
    by (auto split: option.splits)
  show ?case
  proof (cases "truthy_str e")
    case True
    with Cons.prems pa have
      "parse_authz_list_loop H fmt p items acc (List.insert (''Namespace '' @ p @ '': '' @ the e) errs)
         = Inr (al, errs')" by simp
    from Cons.IH [OF this] show ?thesis by auto
  next
    case False
    show ?thesis
    proof (cases "auth_is_public a")
      case True
      with Cons.prems False pa show ?thesis by simp
    next
      case np: False
      with Cons.prems False pa have
        "parse_authz_list_loop H fmt p items (acc @ [a]) errs = Inr (al, errs')" by simp
      from Cons.IH [OF this] show ?thesis .
    qed
  qed
qed

lemma parse_authz_scitokens_null_iff:
  "parse_authz_scitokens attrs t = (a, e) \<Longrightarrow> (truthy_str e \<longleftrightarrow> a = NullAuth)"
  by (auto simp: parse_authz_scitokens_def Let_def truthy_str_def split: if_splits)

lemma parse_authz_null_iff:
  "parse_authz H fmt item = Some (a, e) \<Longrightarrow> (truthy_str e \<longleftrightarrow> a = NullAuth)"
  by (auto simp: parse_authz_def parse_authz_dict_def parse_authz_str_def Let_def truthy_str_def
           split: authz_item.splits list.splits authz_entry.splits option.splits if_splits
           dest: parse_authz_scitokens_null_iff)

lemma parse_authz_list_loop_no_null:
  "parse_authz_list_loop H fmt p items acc errs = Inr (al, errs') \<Longrightarrow> NullAuth \<notin> set acc \<Longrightarrow>
     NullAuth \<notin> set al"
proof (induction items arbitrary: acc errs)
  case Nil
  then show ?case by simp
next
  case (Cons item items)
  from Cons.prems obtain a e where pa: "parse_authz H fmt item = Some (a, e)"
    by (auto split: option.splits)
  note n = parse_authz_null_iff [OF pa]
  show ?case
  proof (cases "truthy_str e")
    case True
    with Cons.prems pa have
      "parse_authz_list_loop H fmt p items acc (List.insert (''Namespace '' @ p @ '': '' @ the e) errs)
         = Inr (al, errs')" by simp
    from Cons.IH [OF this Cons.prems(2)] show ?thesis .
  next
    case False
    with n have nn: "a \<noteq> NullAuth" by simp
    show ?thesis
    proof (cases "auth_is_public a")
      case True
      with Cons.prems False pa nn show ?thesis by auto
    next
      case np: False
      with Cons.prems False pa have
        "parse_authz_list_loop H fmt p items (acc @ [a]) errs = Inr (al, errs')" by simp
      from Cons.IH [OF this] nn Cons.prems(2) show ?thesis by simp
    qed
  qed
qed

lemma parse_authz_list_loop_error_recorded:
  "parse_authz_list_loop H fmt p (pre @ item # post) acc errs = Inr (al, errs') \<Longrightarrow>
   \<forall>x \<in> set pre. \<forall>e. parse_authz H fmt x \<noteq> Some (PublicAuth, e) \<Longrightarrow>
   parse_authz H fmt item = Some (a, Some e) \<Longrightarrow> e \<noteq> [] \<Longrightarrow>
   (''Namespace '' @ p @ '': '' @ e) \<in> set errs'"
proof (induction pre arbitrary: acc errs)
  case Nil
  then have "parse_authz_list_loop H fmt p post acc (List.insert (''Namespace '' @ p @ '': '' @ e) errs)
      = Inr (al, errs')" by (simp add: truthy_str_def)
  from parse_authz_list_loop_errors_mono [OF this] show ?case by auto
next
  case (Cons x pre)
  from Cons.prems(1) obtain b eb where pb: "parse_authz H fmt x = Some (b, eb)"
    by (auto split: option.splits)
  from Cons.prems(2) pb have np: "b \<noteq> PublicAuth" by auto
  then have np': "\<not> auth_is_public b" by (cases b) auto
  from Cons.prems(2) have r: "\<forall>x \<in> set pre. \<forall>e. parse_authz H fmt x \<noteq> Some (PublicAuth, e)" by simp
  show ?case
  proof (cases "truthy_str eb")
    case True
    with Cons.prems(1) pb have
      "parse_authz_list_loop H fmt p (pre @ item # post) acc
          (List.insert (''Namespace '' @ p @ '': '' @ the eb) errs) = Inr (al, errs')" by simp
    from Cons.IH [OF this r Cons.prems(3,4)] show ?thesis .
  next
    case False
    with Cons.prems(1) pb np' have
      "parse_authz_list_loop H fmt p (pre @ item # post) (acc @ [b]) errs = Inr (al, errs')" by simp
    from Cons.IH [OF this r Cons.prems(3,4)] show ?thesis .
  qed
qed

lemma parse_authz_list_total:
  "\<forall>item \<in> set items. item \<noteq> AuthzDict [] \<Longrightarrow>
     \<exists>al errs'. parse_authz_list H fmt p items errs = Inr (al, errs')"
  unfolding parse_authz_list_def by (rule parse_authz_list_loop_total)

lemma parse_authz_list_errors_mono:
  "parse_authz_list H fmt p items errs = Inr (al, errs') \<Longrightarrow> set errs \<subseteq> set errs'"
  unfolding parse_authz_list_def by (rule parse_authz_list_loop_errors_mono)

lemma load_new_yaml_loop_append:
  "load_new_yaml_loop H fmt idx (xs @ ys) sc =
     (case load_new_yaml_loop H fmt idx xs sc of
        Inl e \<Rightarrow> Inl e
      | Inr sc1 \<Rightarrow> load_new_yaml_loop H fmt (idx + length xs) ys sc1)"
  by (induction xs arbitrary: idx sc) (auto split: option.splits sum.splits)

lemma load_new_yaml_loop_total:
  "\<forall>d \<in> set decls. \<forall>item \<in> set (get_default (ns_Authorizations d) []). item \<noteq> AuthzDict [] \<Longrightarrow>
     \<exists>sc'. load_new_yaml_loop H fmt idx decls sc = Inr sc'"
proof (induction decls arbitrary: idx sc)
  case Nil
  then show ?case by simp
next
  case (Cons d decls)
  from Cons.prems have r: "\<forall>d \<in> set decls. \<forall>item \<in> set (get_default (ns_Authorizations d) []).
      item \<noteq> AuthzDict []" by simp
  from Cons.prems have h: "\<forall>item \<in> set (get_default (ns_Authorizations d) []). item \<noteq> AuthzDict []"
    by simp
  show ?case
  proof (cases "ns_Path d")
    case None
    then show ?thesis using Cons.IH [OF r] by simp
  next
    case (Some p)
    show ?thesis
    proof (cases "map_of (namespaces sc) p")
      case orig: (Some n)
      with Some show ?thesis using Cons.IH [OF r] by simp
    next
      case None
      from parse_authz_list_total [OF h, of H fmt p "errors sc"]
      obtain al errs' where "parse_authz_list H fmt p (get_default (ns_Authorizations d) []) (errors sc)
          = Inr (al, errs')" by blast
      with Some None show ?thesis using Cons.IH [OF r] by simp
    qed
  qed
qed

lemma map_of_dict_set_other: "k' \<noteq> k \<Longrightarrow> map_of (dict_set k v d) k' = map_of d k'"
  by (simp add: map_of_dict_set)

lemma load_new_yaml_loop_mono:
  "load_new_yaml_loop H fmt idx decls sc = Inr sc' \<Longrightarrow>
     sc_vo_name sc' = sc_vo_name sc \<and> set (errors sc) \<subseteq> set (errors sc')
     \<and> (\<forall>q n. map_of (namespaces sc) q = Some n \<longrightarrow> map_of (namespaces sc') q = Some n)"
proof (induction decls arbitrary: idx sc)
  case Nil
  then show ?case by simp
next
  case (Cons d decls)
  show ?case
  proof (cases "ns_Path d")
    case None
    with Cons.prems have "load_new_yaml_loop H fmt (Suc idx) decls
            (sc\<lparr>errors := List.insert (''Namespace #'' @ py_str_nat idx @ '': No Path'') (errors sc)\<rparr>)
        = Inr sc'" by simp
    from Cons.IH [OF this] show ?thesis by auto
  next
    case (Some p)
    show ?thesis
    proof (cases "map_of (namespaces sc) p")
      case orig: (Some n)
      with Some Cons.prems have "load_new_yaml_loop H fmt (Suc idx) decls
                 (sc\<lparr>errors := List.insert
                    (''Namespace #'' @ py_str_nat idx @ '': Redefining '' @ p
                       @ ''; original was defined in '' @ vo_name n) (errors sc)\<rparr>) = Inr sc'"
        by simp
      from Cons.IH [OF this] show ?thesis by auto
    next
      case None
      with Some Cons.prems obtain al errs where
        pa: "parse_authz_list H fmt p (get_default (ns_Authorizations d) []) (errors sc) = Inr (al, errs)"
        and r: "load_new_yaml_loop H fmt (Suc idx) decls
                      (sc\<lparr>errors := errs,
                          namespaces := dict_set p
                            \<lparr>path = p, vo_name = sc_vo_name sc,
                             allowed_origins = get_default (ns_AllowedOrigins d) [],
                             allowed_caches = get_default (ns_AllowedCaches d) [],
                             authz_list = al,
                             writeback = ns_Writeback d,
                             dirlist = ns_DirList d\<rparr> (namespaces sc)\<rparr>) = Inr sc'"
        by (auto split: sum.splits)
      note ih = Cons.IH [OF r]
      have "set (errors sc) \<subseteq> set (errors sc')"
        using parse_authz_list_errors_mono [OF pa] ih by auto
      moreover have "map_of (namespaces sc') q = Some n" if "map_of (namespaces sc) q = Some n" for q n
      proof -
        from that None have "q \<noteq> p" by auto
        with that ih show ?thesis by (simp add: map_of_dict_set)
      qed
      ultimately show ?thesis using ih by simp
    qed
  qed
qed

lemma load_new_yaml_loop_stores:
  assumes "load_new_yaml_loop H fmt idx (d # rest) sc = Inr sc'"
    and "ns_Path d = Some p" and "map_of (namespaces sc) p = None"
  shows "\<exists>al errs errs'.
           parse_authz_list H fmt p (get_default (ns_Authorizations d) []) errs = Inr (al, errs')
           \<and> map_of (namespaces sc') p = Some (declared_namespace (sc_vo_name sc) p d al)"
proof -
  from assms obtain al errs where
    pa: "parse_authz_list H fmt p (get_default (ns_Authorizations d) []) (errors sc) = Inr (al, errs)"
    and r: "load_new_yaml_loop H fmt (Suc idx) rest
                      (sc\<lparr>errors := errs,
                          namespaces := dict_set p (declared_namespace (sc_vo_name sc) p d al)
                             (namespaces sc)\<rparr>) = Inr sc'"
    by (auto simp: declared_namespace_def split: sum.splits)
  from load_new_yaml_loop_mono [OF r]
  have "map_of (namespaces sc') p = Some (declared_namespace (sc_vo_name sc) p d al)"
    by (simp add: map_of_dict_set)
  with pa show ?thesis by blast
qed

lemma load_new_yaml_loop_keeps_absent:
  "load_new_yaml_loop H fmt idx decls sc = Inr sc' \<Longrightarrow> map_of (namespaces sc) p = None \<Longrightarrow>
   \<forall>d \<in> set decls. ns_Path d \<noteq> Some p \<Longrightarrow> map_of (namespaces sc') p = None"
proof (induction decls arbitrary: idx sc)
  case Nil
  then show ?case by simp
next
  case (Cons d decls)
  from Cons.prems(3) have r: "\<forall>d \<in> set decls. ns_Path d \<noteq> Some p" by simp
  show ?case
  proof (cases "ns_Path d")
    case None
    with Cons.prems have "load_new_yaml_loop H fmt (Suc idx) decls
            (sc\<lparr>errors := List.insert (''Namespace #'' @ py_str_nat idx @ '': No Path'') (errors sc)\<rparr>)
        = Inr sc'" by simp
    from Cons.IH [OF this _ r] Cons.prems(2) show ?thesis by simp
  next
    case (Some q)
    with Cons.prems(3) have qp: "q \<noteq> p" by auto
    show ?thesis
    proof (cases "map_of (namespaces sc) q")
      case orig: (Some n)
      with Some Cons.prems have "load_new_yaml_loop H fmt (Suc idx) decls
                 (sc\<lparr>errors := List.insert
                    (''Namespace #'' @ py_str_nat idx @ '': Redefining '' @ q
                       @ ''; original was defined in '' @ vo_name n) (errors sc)\<rparr>) = Inr sc'"
        by simp
      from Cons.IH [OF this _ r] Cons.prems(2) show ?thesis by simp
    next
      case None
      with Some Cons.prems obtain al errs where
        r1: "load_new_yaml_loop H fmt (Suc idx) decls
                      (sc\<lparr>errors := errs,
                          namespaces := dict_set q (declared_namespace (sc_vo_name sc) q d al)
                             (namespaces sc)\<rparr>) = Inr sc'"
        by (auto simp: declared_namespace_def split: sum.splits)
      from Cons.IH [OF r1 _ r] Cons.prems(2) qp show ?thesis by (simp add: map_of_dict_set)
    qed
  qed
qed

lemma load_new_yaml_loop_redefining:
  assumes "load_new_yaml_loop H fmt idx (d # rest) sc = Inr sc'"
    and "ns_Path d = Some p" and "map_of (namespaces sc) p = Some n"
  shows "redefining_message idx p (vo_name n) \<in> set (errors sc')"
proof -
  from assms have "load_new_yaml_loop H fmt (Suc idx) rest
      (sc\<lparr>errors := List.insert (redefining_message idx p (vo_name n)) (errors sc)\<rparr>) = Inr sc'"
    by (simp add: redefining_message_def)
  from load_new_yaml_loop_mono [OF this] show ?thesis by auto
qed

lemma load_new_yaml_duplicate:
  assumes "yaml_Namespaces y = Some (NamespacesList (pre @ d1 # mid @ d2 # post))"
    and "ns_Path d1 = Some p" and "ns_Path d2 = Some p"
    and "\<forall>d \<in> set pre. ns_Path d \<noteq> Some p"
    and "\<forall>item \<in> set (yaml_authz_items y). item \<noteq> AuthzDict []"
  shows "\<exists>sc al errs errs'.
           StashCache H fmt vo y = Inr sc
           \<and> parse_authz_list H fmt p (get_default (ns_Authorizations d1) []) errs = Inr (al, errs')
           \<and> map_of (namespaces sc) p = Some (declared_namespace vo p d1 al)
           \<and> redefining_message (length pre + 1 + length mid) p vo \<in> set (errors sc)
           \<and> redefining_message (length pre + 1 + length mid) p vo =
               ''Namespace #'' @ py_str_nat (length pre + 1 + length mid) @ '': Redefining '' @ p
                 @ ''; original was defined in '' @ vo"
proof -
  let ?decls = "pre @ d1 # mid @ d2 # post"
  let ?init = "\<lparr>sc_vo_name = vo, namespaces = [], errors = []\<rparr>"
  have ne: "\<forall>d \<in> set ?decls. \<forall>item \<in> set (get_default (ns_Authorizations d) []). item \<noteq> AuthzDict []"
    using assms(1,5) unfolding yaml_authz_items_def by auto
  from load_new_yaml_loop_total [OF ne, of H fmt 0 ?init]
  obtain sc where sc: "load_new_yaml_loop H fmt 0 ?decls ?init = Inr sc" by blast
  have run: "StashCache H fmt vo y = Inr sc"
    using sc assms(1) by (simp add: StashCache_def load_yaml_def load_new_yaml_def)
  from sc obtain sc1 where
    s1: "load_new_yaml_loop H fmt 0 pre ?init = Inr sc1"
    and s1r: "load_new_yaml_loop H fmt (length pre) (d1 # mid @ d2 # post) sc1 = Inr sc"
    by (auto simp: load_new_yaml_loop_append split: sum.splits)
  have vo1: "sc_vo_name sc1 = vo" using load_new_yaml_loop_mono [OF s1] by simp
  have abs1: "map_of (namespaces sc1) p = None"
    by (rule load_new_yaml_loop_keeps_absent [OF s1 _ assms(4)]) simp
  from s1r have "load_new_yaml_loop H fmt (length pre) ((d1 # mid) @ d2 # post) sc1 = Inr sc" by simp
  then obtain sc2 where
    s2: "load_new_yaml_loop H fmt (length pre) (d1 # mid) sc1 = Inr sc2"
    and s2r: "load_new_yaml_loop H fmt (length pre + length (d1 # mid)) (d2 # post) sc2 = Inr sc"
    unfolding load_new_yaml_loop_append by (auto split: sum.splits)
  from load_new_yaml_loop_stores [OF s2 assms(2) abs1] vo1
  obtain al errs errs' where
    pa: "parse_authz_list H fmt p (get_default (ns_Authorizations d1) []) errs = Inr (al, errs')"
    and st2: "map_of (namespaces sc2) p = Some (declared_namespace vo p d1 al)"
    by auto
  from load_new_yaml_loop_mono [OF s2r] st2
  have st: "map_of (namespaces sc) p = Some (declared_namespace vo p d1 al)" by blast
  from load_new_yaml_loop_redefining [OF s2r assms(3) st2]
  have msg: "redefining_message (length pre + 1 + length mid) p vo \<in> set (errors sc)"
    by (simp add: declared_namespace_def)
  from run pa st msg show ?thesis unfolding redefining_message_def by blast
qed

lemma df_parse_authz_None_iff: "df_parse_authz H fmt item = None \<longleftrightarrow> item = AuthzDict []"
  by (auto simp: df_parse_authz_def df_parse_authz_dict_def
           split: authz_item.splits list.splits authz_entry.splits option.splits)

lemma df_parse_authz_list_loop_total:
  "\<forall>item \<in> set items. item \<noteq> AuthzDict [] \<Longrightarrow>
     \<exists>al errs'. df_parse_authz_list_loop H fmt p items acc errs = Inr (al, errs')"
proof (induction items arbitrary: acc errs)
  case Nil
  then show ?case by simp
next
  case (Cons item items)
  from Cons.prems have "df_parse_authz H fmt item \<noteq> None" by (simp add: df_parse_authz_None_iff)
  then obtain a e where pa: "df_parse_authz H fmt item = Some (a, e)" by auto
  from Cons.prems have r: "\<forall>item \<in> set items. item \<noteq> AuthzDict []" by simp
  show ?case using pa Cons.IH [OF r] by simp
qed

lemma df_parse_authz_list_loop_errors_mono:
  "df_parse_authz_list_loop H fmt p items acc errs = Inr (al, errs') \<Longrightarrow> set errs \<subseteq> set errs'"
proof (induction items arbitrary: acc errs)
  case Nil
  then show ?case by simp
next
  case (Cons item items)
  from Cons.prems obtain a e where pa: "df_parse_authz H fmt item = Some (a, e)"
    by (auto split: option.splits)
  show ?case
  proof (cases "truthy_str e")
    case True
    with Cons.prems pa have
      "df_parse_authz_list_loop H fmt p items acc (List.insert (''Namespace '' @ p @ '': '' @ the e) errs)
         = Inr (al, errs')" by simp
    from Cons.IH [OF this] show ?thesis by auto
  next
    case False
    with Cons.prems pa have
      "df_parse_authz_list_loop H fmt p items (acc @ [a]) errs = Inr (al, errs')" by simp
    from Cons.IH [OF this] show ?thesis .
  qed
qed

lemma df_load_new_yaml_loop_append:
  "df_load_new_yaml_loop H fmt up idx (xs @ ys) sc =
     (case df_load_new_yaml_loop H fmt up idx xs sc of
        Inl e \<Rightarrow> Inl e
      | Inr sc1 \<Rightarrow> df_load_new_yaml_loop H fmt up (idx + length xs) ys sc1)"
  by (induction xs arbitrary: idx sc) (auto split: option.splits sum.splits)

text \<open>One turn of the loop of the second loader, by cases.\<close>

lemma df_load_new_yaml_loop_no_path:
  "ns_Path d = None \<Longrightarrow>
   df_load_new_yaml_loop H fmt up idx (d # rest) sc =
     df_load_new_yaml_loop H fmt up (Suc idx) rest
       (sc\<lparr>df_errors := List.insert (''Namespace #'' @ py_str_nat idx @ '': No Path'') (df_errors sc)\<rparr>)"
  by simp

lemma df_load_new_yaml_loop_duplicate:
  "ns_Path d = Some p \<Longrightarrow> map_of (df_namespaces sc) p = Some n \<Longrightarrow>
   df_load_new_yaml_loop H fmt up idx (d # rest) sc =
     df_load_new_yaml_loop H fmt up (Suc idx) rest
       (sc\<lparr>df_errors := List.insert (redefining_message idx p (vo_name n)) (df_errors sc)\<rparr>)"
  by (simp add: redefining_message_def)

lemma df_load_new_yaml_loop_fresh:
  assumes "ns_Path d = Some p" and "map_of (df_namespaces sc) p = None"
    and "df_load_new_yaml_loop H fmt up idx (d # rest) sc = Inr sc'"
  shows "\<exists>al errs. df_parse_authz_list H fmt p (get_default (ns_Authorizations d) []) (df_errors sc)
            = Inr (al, errs)
          \<and> df_load_new_yaml_loop H fmt up (Suc idx) rest
               (sc\<lparr>df_errors := errs,
                   df_namespaces := dict_set p (df_declared_namespace (df_vo_name sc) p d al)
                                      (df_namespaces sc)\<rparr>) = Inr sc'"
  using assms
  by (auto simp: df_declared_namespace_def split: sum.splits if_splits)

lemma df_load_new_yaml_loop_total:
  "\<forall>d \<in> set decls. \<forall>item \<in> set (get_default (ns_Authorizations d) []). item \<noteq> AuthzDict [] \<Longrightarrow>
   \<forall>d \<in> set decls. \<forall>cg. ns_CredentialGeneration d = Some cg \<longrightarrow>
      validate up (CredentialGeneration cg) = Inr [] \<Longrightarrow>
     \<exists>sc'. df_load_new_yaml_loop H fmt up idx decls sc = Inr sc'"
proof (induction decls arbitrary: idx sc)
  case Nil
  then show ?case by simp
next
  case (Cons d decls)
  from Cons.prems have r: "\<forall>d \<in> set decls. \<forall>item \<in> set (get_default (ns_Authorizations d) []).
      item \<noteq> AuthzDict []"
    "\<forall>d \<in> set decls. \<forall>cg. ns_CredentialGeneration d = Some cg \<longrightarrow>
      validate up (CredentialGeneration cg) = Inr []" by simp_all
  from Cons.prems have h: "\<forall>item \<in> set (get_default (ns_Authorizations d) []). item \<noteq> AuthzDict []"
    by simp
  from Cons.prems(2) have c: "\<forall>cg. ns_CredentialGeneration d = Some cg \<longrightarrow>
      validate up (CredentialGeneration cg) = Inr []" by auto
  show ?case
  proof (cases "ns_Path d")
    case None
    then show ?thesis using Cons.IH [OF r] by simp
  next
    case (Some p)
    show ?thesis
    proof (cases "map_of (df_namespaces sc) p")
      case orig: (Some n)
      with Some show ?thesis using Cons.IH [OF r] by simp
    next
      case None
      from df_parse_authz_list_loop_total [OF h, of H fmt p "[]" "df_errors sc"]
      obtain al errs' where "df_parse_authz_list H fmt p (get_default (ns_Authorizations d) []) (df_errors sc)
          = Inr (al, errs')" unfolding df_parse_authz_list_def by blast
      with Some None c show ?thesis using Cons.IH [OF r]
        by (cases "ns_CredentialGeneration d") auto
    qed
  qed
qed

lemma df_load_new_yaml_loop_mono:
  "df_load_new_yaml_loop H fmt up idx decls sc = Inr sc' \<Longrightarrow>
     df_vo_name sc' = df_vo_name sc \<and> set (df_errors sc) \<subseteq> set (df_errors sc')
     \<and> (\<forall>q n. map_of (df_namespaces sc) q = Some n \<longrightarrow> map_of (df_namespaces sc') q = Some n)"
proof (induction decls arbitrary: idx sc)
  case Nil
  then show ?case by simp
next
  case (Cons d decls)
  show ?case
  proof (cases "ns_Path d")
    case None
    from Cons.prems [unfolded df_load_new_yaml_loop_no_path [OF None]]
    show ?thesis using Cons.IH by fastforce
  next
    case (Some p)
    show ?thesis
    proof (cases "map_of (df_namespaces sc) p")
      case orig: (Some n)
      from Cons.prems [unfolded df_load_new_yaml_loop_duplicate [OF Some orig]]
      show ?thesis using Cons.IH by fastforce
    next
      case None
      from df_load_new_yaml_loop_fresh [OF Some None Cons.prems] obtain al errs where
        pa: "df_parse_authz_list H fmt p (get_default (ns_Authorizations d) []) (df_errors sc) = Inr (al, errs)"
        and r: "df_load_new_yaml_loop H fmt up (Suc idx) decls
               (sc\<lparr>df_errors := errs,
                   df_namespaces := dict_set p (df_declared_namespace (df_vo_name sc) p d al)
                                      (df_namespaces sc)\<rparr>) = Inr sc'"
        by blast
      note ih = Cons.IH [OF r]
      have "set (df_errors sc) \<subseteq> set (df_errors sc')"
        using df_parse_authz_list_loop_errors_mono [OF pa [unfolded df_parse_authz_list_def]] ih by auto
      moreover have "map_of (df_namespaces sc') q = Some n" if "map_of (df_namespaces sc) q = Some n" for q n
      proof -
        from that None have "q \<noteq> p" by auto
        with that ih show ?thesis by (simp add: map_of_dict_set)
      qed
      ultimately show ?thesis using ih by simp
    qed
  qed
qed

lemma df_load_new_yaml_loop_stores:
  assumes "df_load_new_yaml_loop H fmt up idx (d # rest) sc = Inr sc'"
    and "ns_Path d = Some p" and "map_of (df_namespaces sc) p = None"
  shows "\<exists>al errs errs'.
           df_parse_authz_list H fmt p (get_default (ns_Authorizations d) []) errs = Inr (al, errs')
           \<and> map_of (df_namespaces sc') p = Some (df_declared_namespace (df_vo_name sc) p d al)"
proof -
  from df_load_new_yaml_loop_fresh [OF assms(2,3,1)] obtain al errs where
    pa: "df_parse_authz_list H fmt p (get_default (ns_Authorizations d) []) (df_errors sc) = Inr (al, errs)"
    and r: "df_load_new_yaml_loop H fmt up (Suc idx) rest
               (sc\<lparr>df_errors := errs,
                   df_namespaces := dict_set p (df_declared_namespace (df_vo_name sc) p d al)
                                      (df_namespaces sc)\<rparr>) = Inr sc'"
    by blast
  from df_load_new_yaml_loop_mono [OF r]
  have "map_of (df_namespaces sc') p = Some (df_declared_namespace (df_vo_name sc) p d al)"
    by (simp add: map_of_dict_set)
  with pa show ?thesis by blast
qed

lemma df_load_new_yaml_loop_keeps_absent:
  "df_load_new_yaml_loop H fmt up idx decls sc = Inr sc' \<Longrightarrow> map_of (df_namespaces sc) p = None \<Longrightarrow>
   \<forall>d \<in> set decls. ns_Path d \<noteq> Some p \<Longrightarrow> map_of (df_namespaces sc') p = None"
proof (induction decls arbitrary: idx sc)
  case Nil
  then show ?case by simp
next
  case (Cons d decls)
  from Cons.prems(3) have r: "\<forall>d \<in> set decls. ns_Path d \<noteq> Some p" by simp
  show ?case
  proof (cases "ns_Path d")
    case None
    from Cons.prems(1) [unfolded df_load_new_yaml_loop_no_path [OF None]]
    show ?thesis using Cons.IH [OF _ _ r] Cons.prems(2) by fastforce
  next
    case (Some q)
    with Cons.prems(3) have qp: "q \<noteq> p" by auto
    show ?thesis
    proof (cases "map_of (df_namespaces sc) q")
      case orig: (Some n)
      from Cons.prems(1) [unfolded df_load_new_yaml_loop_duplicate [OF Some orig]]
      show ?thesis using Cons.IH [OF _ _ r] Cons.prems(2) by fastforce
    next
      case None
      from df_load_new_yaml_loop_fresh [OF Some None Cons.prems(1)] obtain al errs where
        r1: "df_load_new_yaml_loop H fmt up (Suc idx) decls
               (sc\<lparr>df_errors := errs,
                   df_namespaces := dict_set q (df_declared_namespace (df_vo_name sc) q d al)
                                      (df_namespaces sc)\<rparr>) = Inr sc'"
        by blast
      from Cons.IH [OF r1 _ r] Cons.prems(2) qp show ?thesis by (simp add: map_of_dict_set)
    qed
  qed
qed

lemma df_load_new_yaml_loop_redefining:
  assumes "df_load_new_yaml_loop H fmt up idx (d # rest) sc = Inr sc'"
    and "ns_Path d = Some p" and "map_of (df_namespaces sc) p = Some n"
  shows "redefining_message idx p (vo_name n) \<in> set (df_errors sc')"
proof -
  from assms(1) [unfolded df_load_new_yaml_loop_duplicate [OF assms(2,3)]]
  show ?thesis using df_load_new_yaml_loop_mono by fastforce
qed

lemma df_load_new_yaml_duplicate:
  assumes "\<forall>d \<in> set pre. ns_Path d \<noteq> Some p"
    and "ns_Path d1 = Some p" and "ns_Path d2 = Some p"
    and "\<forall>d \<in> set (pre @ d1 # mid @ d2 # post).
           \<forall>item \<in> set (get_default (ns_Authorizations d) []). item \<noteq> AuthzDict []"
    and "\<forall>d \<in> set (pre @ d1 # mid @ d2 # post). \<forall>cg. ns_CredentialGeneration d = Some cg \<longrightarrow>
           validate up (CredentialGeneration cg) = Inr []"
  shows "\<exists>sc al errs errs'.
           df_load_new_yaml H fmt up (pre @ d1 # mid @ d2 # post)
               \<lparr>df_vo_name = vo, df_namespaces = [], df_errors = []\<rparr> = Inr sc
           \<and> df_parse_authz_list H fmt p (get_default (ns_Authorizations d1) []) errs = Inr (al, errs')
           \<and> map_of (df_namespaces sc) p = Some (df_declared_namespace vo p d1 al)
           \<and> redefining_message (length pre + 1 + length mid) p vo \<in> set (df_errors sc)"
proof -
  let ?decls = "pre @ d1 # mid @ d2 # post"
  let ?init = "\<lparr>df_vo_name = vo, df_namespaces = [], df_errors = []\<rparr>"
  from df_load_new_yaml_loop_total [OF assms(4,5), of H fmt 0 ?init]
  obtain sc where sc: "df_load_new_yaml_loop H fmt up 0 ?decls ?init = Inr sc" by blast
  from sc obtain sc1 where
    s1: "df_load_new_yaml_loop H fmt up 0 pre ?init = Inr sc1"
    and s1r: "df_load_new_yaml_loop H fmt up (length pre) (d1 # mid @ d2 # post) sc1 = Inr sc"
    by (auto simp: df_load_new_yaml_loop_append split: sum.splits)
  have vo1: "df_vo_name sc1 = vo" using df_load_new_yaml_loop_mono [OF s1] by simp
  have abs1: "map_of (df_namespaces sc1) p = None"
    by (rule df_load_new_yaml_loop_keeps_absent [OF s1 _ assms(1)]) simp
  from s1r have "df_load_new_yaml_loop H fmt up (length pre) ((d1 # mid) @ d2 # post) sc1 = Inr sc" by simp
  then obtain sc2 where
    s2: "df_load_new_yaml_loop H fmt up (length pre) (d1 # mid) sc1 = Inr sc2"
    and s2r: "df_load_new_yaml_loop H fmt up (length pre + length (d1 # mid)) (d2 # post) sc2 = Inr sc"
    unfolding df_load_new_yaml_loop_append by (auto split: sum.splits)
  from df_load_new_yaml_loop_stores [OF s2 assms(2) abs1] vo1
  obtain al errs errs' where
    pa: "df_parse_authz_list H fmt p (get_default (ns_Authorizations d1) []) errs = Inr (al, errs')"
    and st2: "map_of (df_namespaces sc2) p = Some (df_declared_namespace vo p d1 al)"
    by auto
  from df_load_new_yaml_loop_mono [OF s2r] st2
  have st: "map_of (df_namespaces sc) p = Some (df_declared_namespace vo p d1 al)" by blast
  from df_load_new_yaml_loop_redefining [OF s2r assms(3) st2]
  have msg: "redefining_message (length pre + 1 + length mid) p vo \<in> set (df_errors sc)"
    by (simp add: df_declared_namespace_def)
  from sc pa st msg show ?thesis unfolding df_load_new_yaml_def by blast
qed

text \<open>
  C9 does not hold of the loaders.  The branch of a repeated path does what C9 says
  (lemmas \<open>load_new_yaml_duplicate\<close> and \<open>df_load_new_yaml_duplicate\<close>: the first
  declaration stays, the message is added, the loop goes on), but the load as a whole
  does not always complete.  In \<^verbatim>\<open>webapp/data_federation.py\<close>, a load that declares
  \<^verbatim>\<open>/a\<close> twice and then \<^verbatim>\<open>/b\<close> with a \<^verbatim>\<open>CredentialGeneration\<close> block whose
  strategy is unknown raises \<^verbatim>\<open>TypeError\<close>: \<^verbatim>\<open>validate\<close> returns its one error and
  \<^verbatim>\<open>self.errors += {...}\<close> is run on a set.  The same load with a block that validates
  completes, keeps the first \<^verbatim>\<open>/a\<close> and holds the message.  With an issuer that
  \<^verbatim>\<open>urlparse\<close> rejects the load raises \<^verbatim>\<open>ValueError\<close>.  In \<^verbatim>\<open>webapp/vos_data.py\<close>,
  a load that declares \<^verbatim>\<open>/a\<close> twice and then \<^verbatim>\<open>/b\<close> with an authorization item that
  is an empty mapping raises \<^verbatim>\<open>TypeError\<close>.
\<close>

theorem duplicate_path_load_raises:
  "validate ex_urlparse (CredentialGeneration (ex_cg ''Bogus''))
     = Inr [''CredentialGeneration: invalid Strategy Bogus'']
   \<and> df_load_new_yaml ex_hash (\<lambda>i. ''?'') ex_urlparse
        [ex_df_decl ''/a'' [AuthzStr ''FQAN:/vo''] None,
         ex_df_decl ''/a'' [AuthzStr ''PUBLIC''] None,
         ex_df_decl ''/b'' [AuthzStr ''FQAN:/vo''] (Some (ex_cg ''Bogus''))]
        \<lparr>df_vo_name = ''vo'', df_namespaces = [], df_errors = []\<rparr>
     = Inl (TypeError ''unsupported operand type(s) for +=: set and set'')
   \<and> df_load_new_yaml ex_hash (\<lambda>i. ''?'') ex_urlparse
        [ex_df_decl ''/a'' [AuthzStr ''FQAN:/vo''] None,
         ex_df_decl ''/a'' [AuthzStr ''PUBLIC''] None,
         ex_df_decl ''/b'' [AuthzStr ''FQAN:/vo''] (Some (ex_cg ''OAuth2''))]
        \<lparr>df_vo_name = ''vo'', df_namespaces = [], df_errors = []\<rparr>
     = Inr \<lparr>df_vo_name = ''vo'',
            df_namespaces =
              [(''/a'', df_declared_namespace ''vo'' ''/a''
                         (ex_df_decl ''/a'' [AuthzStr ''FQAN:/vo''] None) [FQANAuth ''/vo'']),
               (''/b'', df_declared_namespace ''vo'' ''/b''
                         (ex_df_decl ''/b'' [AuthzStr ''FQAN:/vo''] (Some (ex_cg ''OAuth2'')))
                         [FQANAuth ''/vo''])],
            df_errors = [''Namespace #1: Redefining /a; original was defined in vo'']\<rparr>
   \<and> df_load_new_yaml ex_hash (\<lambda>i. ''?'') ex_urlparse
        [ex_df_decl ''/a'' [AuthzStr ''FQAN:/vo''] None,
         ex_df_decl ''/a'' [AuthzStr ''PUBLIC''] None,
         ex_df_decl ''/b'' [AuthzStr ''FQAN:/vo'']
           (Some ((ex_cg ''OAuth2'')\<lparr>cg_Issuer := Some ''https://[::1''\<rparr>))]
        \<lparr>df_vo_name = ''vo'', df_namespaces = [], df_errors = []\<rparr>
     = Inl (ValueError ''Invalid IPv6 URL'')
   \<and> StashCache ex_hash (\<lambda>i. ''?'') ''vo''
        (ex_yaml [ex_decl ''/a'' [AuthzStr ''FQAN:/vo''], ex_decl ''/a'' [AuthzStr ''PUBLIC''],
                  ex_decl ''/b'' [AuthzDict []]])
     = Inl (TypeError ''cannot unpack non-iterable NoneType object'')"
  by code_simp

subsection \<open>Loading a VO: items that do not parse\<close>

lemma parse_authz_list_no_null:
  "parse_authz_list H fmt p items errs = Inr (al, errs') \<Longrightarrow> NullAuth \<notin> set al"
  unfolding parse_authz_list_def using parse_authz_list_loop_no_null [of H fmt p items "[]"] by simp

lemma load_new_yaml_loop_declared:
  "load_new_yaml_loop H fmt idx decls sc = Inr sc' \<Longrightarrow> d \<in> set decls \<Longrightarrow> ns_Path d = Some p \<Longrightarrow>
     map_of (namespaces sc') p \<noteq> None"
proof (induction decls arbitrary: idx sc)
  case Nil
  then show ?case by simp
next
  case (Cons x decls)
  show ?case
  proof (cases "map_of (namespaces sc) p")
    case (Some n)
    with load_new_yaml_loop_mono [OF Cons.prems(1)] show ?thesis by auto
  next
    case None
    show ?thesis
    proof (cases "x = d")
      case True
      from load_new_yaml_loop_stores [OF Cons.prems(1) [unfolded True] Cons.prems(3) None]
      show ?thesis by auto
    next
      case False
      with Cons.prems(2) have din: "d \<in> set decls" by simp
      from Cons.prems(1) obtain sc1 where "load_new_yaml_loop H fmt (Suc idx) decls sc1 = Inr sc'"
        by (auto split: option.splits sum.splits)
      from Cons.IH [OF this din Cons.prems(3)] show ?thesis .
    qed
  qed
qed

lemma load_new_yaml_loop_no_null:
  "load_new_yaml_loop H fmt idx decls sc = Inr sc' \<Longrightarrow>
   \<forall>q n. map_of (namespaces sc) q = Some n \<longrightarrow> NullAuth \<notin> set (authz_list n) \<Longrightarrow>
   \<forall>q n. map_of (namespaces sc') q = Some n \<longrightarrow> NullAuth \<notin> set (authz_list n)"
proof (induction decls arbitrary: idx sc)
  case Nil
  then show ?case by simp
next
  case (Cons d decls)
  show ?case
  proof (cases "ns_Path d")
    case None
    with Cons.prems(1) have "load_new_yaml_loop H fmt (Suc idx) decls
            (sc\<lparr>errors := List.insert (''Namespace #'' @ py_str_nat idx @ '': No Path'') (errors sc)\<rparr>)
        = Inr sc'" by simp
    from Cons.IH [OF this] Cons.prems(2) show ?thesis by simp
  next
    case (Some p)
    show ?thesis
    proof (cases "map_of (namespaces sc) p")
      case orig: (Some n)
      with Some Cons.prems(1) have "load_new_yaml_loop H fmt (Suc idx) decls
                 (sc\<lparr>errors := List.insert
                    (''Namespace #'' @ py_str_nat idx @ '': Redefining '' @ p
                       @ ''; original was defined in '' @ vo_name n) (errors sc)\<rparr>) = Inr sc'"
        by simp
      from Cons.IH [OF this] Cons.prems(2) show ?thesis by simp
    next
      case None
      with Some Cons.prems(1) obtain al errs where
        pa: "parse_authz_list H fmt p (get_default (ns_Authorizations d) []) (errors sc) = Inr (al, errs)"
        and r: "load_new_yaml_loop H fmt (Suc idx) decls
                      (sc\<lparr>errors := errs,
                          namespaces := dict_set p (declared_namespace (sc_vo_name sc) p d al)
                             (namespaces sc)\<rparr>) = Inr sc'"
        by (auto simp: declared_namespace_def split: sum.splits)
      have "NullAuth \<notin> set al" using parse_authz_list_no_null [OF pa] .
      then have "\<forall>q n. map_of (namespaces (sc\<lparr>errors := errs,
                          namespaces := dict_set p (declared_namespace (sc_vo_name sc) p d al)
                             (namespaces sc)\<rparr>)) q = Some n \<longrightarrow> NullAuth \<notin> set (authz_list n)"
        using Cons.prems(2) by (auto simp: map_of_dict_set declared_namespace_def split: if_splits)
      from Cons.IH [OF r this] show ?thesis .
    qed
  qed
qed

lemma load_old_yaml_loop_props:
  "\<forall>item \<in> set (concat (map snd entries)). item \<noteq> AuthzDict [] \<Longrightarrow>
   \<forall>q n. map_of (namespaces sc) q = Some n \<longrightarrow> NullAuth \<notin> set (authz_list n) \<Longrightarrow>
   \<exists>sc'. load_old_yaml_loop H fmt y entries sc = Inr sc'
      \<and> (\<forall>q. map_of (namespaces sc) q \<noteq> None \<longrightarrow> map_of (namespaces sc') q \<noteq> None)
      \<and> (\<forall>q \<in> set (map fst entries). map_of (namespaces sc') q \<noteq> None)
      \<and> (\<forall>q n. map_of (namespaces sc') q = Some n \<longrightarrow> NullAuth \<notin> set (authz_list n))"
proof (induction entries arbitrary: sc)
  case Nil
  then show ?case by simp
next
  case (Cons e entries)
  obtain p items where e: "e = (p, items)" by (cases e)
  from Cons.prems(1) e have h: "\<forall>item \<in> set items. item \<noteq> AuthzDict []" by simp
  from Cons.prems(1) have r: "\<forall>item \<in> set (concat (map snd entries)). item \<noteq> AuthzDict []" by simp
  from parse_authz_list_total [OF h, of H fmt p "errors sc"]
  obtain al errs where pa: "parse_authz_list H fmt p items (errors sc) = Inr (al, errs)" by blast
  show ?case
  proof (cases "map_of (namespaces sc) p")
    case (Some orig)
    let ?sc1 = "sc\<lparr>errors := List.insert
                    (''Redefining '' @ p @ ''; original was defined in '' @ vo_name orig) errs\<rparr>"
    have i: "\<forall>q n. map_of (namespaces ?sc1) q = Some n \<longrightarrow> NullAuth \<notin> set (authz_list n)"
      using Cons.prems(2) by simp
    from Cons.IH [OF r i] obtain sc' where
      s: "load_old_yaml_loop H fmt y entries ?sc1 = Inr sc'"
      "\<forall>q. map_of (namespaces ?sc1) q \<noteq> None \<longrightarrow> map_of (namespaces sc') q \<noteq> None"
      "\<forall>q \<in> set (map fst entries). map_of (namespaces sc') q \<noteq> None"
      "\<forall>q n. map_of (namespaces sc') q = Some n \<longrightarrow> NullAuth \<notin> set (authz_list n)"
      by blast
    have "load_old_yaml_loop H fmt y (e # entries) sc = Inr sc'"
      using e pa Some s(1) by simp
    moreover have "\<forall>q \<in> set (map fst (e # entries)). map_of (namespaces sc') q \<noteq> None"
      using s(2,3) Some e by auto
    ultimately show ?thesis using s(2,4) by auto
  next
    case None
    let ?n = "\<lparr>path = p, vo_name = sc_vo_name sc,
                        allowed_origins = get_default (yaml_AllowedOrigins y) [],
                        allowed_caches = get_default (yaml_AllowedCaches y) [],
                        authz_list = al, writeback = None, dirlist = None\<rparr>"
    let ?sc1 = "sc\<lparr>errors := errs, namespaces := dict_set p ?n (namespaces sc)\<rparr>"
    have "NullAuth \<notin> set al" using parse_authz_list_no_null [OF pa] .
    then have i: "\<forall>q n. map_of (namespaces ?sc1) q = Some n \<longrightarrow> NullAuth \<notin> set (authz_list n)"
      using Cons.prems(2) by (auto simp: map_of_dict_set split: if_splits)
    from Cons.IH [OF r i] obtain sc' where
      s: "load_old_yaml_loop H fmt y entries ?sc1 = Inr sc'"
      "\<forall>q. map_of (namespaces ?sc1) q \<noteq> None \<longrightarrow> map_of (namespaces sc') q \<noteq> None"
      "\<forall>q \<in> set (map fst entries). map_of (namespaces sc') q \<noteq> None"
      "\<forall>q n. map_of (namespaces sc') q = Some n \<longrightarrow> NullAuth \<notin> set (authz_list n)"
      by blast
    have "load_old_yaml_loop H fmt y (e # entries) sc = Inr sc'"
      using e pa None s(1) by simp
    moreover have "\<forall>q. map_of (namespaces sc) q \<noteq> None \<longrightarrow> map_of (namespaces sc') q \<noteq> None"
      using s(2) by (auto simp: map_of_dict_set)
    moreover have "\<forall>q \<in> set (map fst (e # entries)). map_of (namespaces sc') q \<noteq> None"
      using s(2,3) e by (auto simp: map_of_dict_set)
    ultimately show ?thesis using s(4) by auto
  qed
qed

lemma StashCache_total:
  assumes "\<forall>item \<in> set (yaml_authz_items y). item \<noteq> AuthzDict []"
  shows "\<exists>sc. StashCache H fmt vo y = Inr sc
            \<and> (\<forall>p \<in> set (yaml_paths y). map_of (namespaces sc) p \<noteq> None)
            \<and> (\<forall>p n. map_of (namespaces sc) p = Some n \<longrightarrow> NullAuth \<notin> set (authz_list n))"
proof (cases "yaml_Namespaces y")
  case None
  then show ?thesis by (simp add: StashCache_def load_yaml_def yaml_paths_def)
next
  case (Some nsy)
  let ?init = "\<lparr>sc_vo_name = vo, namespaces = [], errors = []\<rparr>"
  show ?thesis
  proof (cases nsy)
    case (NamespacesList decls)
    have ne: "\<forall>d \<in> set decls. \<forall>item \<in> set (get_default (ns_Authorizations d) []). item \<noteq> AuthzDict []"
      using assms Some NamespacesList unfolding yaml_authz_items_def by auto
    from load_new_yaml_loop_total [OF ne, of H fmt 0 ?init]
    obtain sc where sc: "load_new_yaml_loop H fmt 0 decls ?init = Inr sc" by blast
    have a: "\<forall>p \<in> set (yaml_paths y). map_of (namespaces sc) p \<noteq> None"
      using load_new_yaml_loop_declared [OF sc] Some NamespacesList
      by (auto simp: yaml_paths_def split: option.splits)
    have b: "\<forall>p n. map_of (namespaces sc) p = Some n \<longrightarrow> NullAuth \<notin> set (authz_list n)"
      by (rule load_new_yaml_loop_no_null [OF sc]) simp
    have "StashCache H fmt vo y = Inr sc"
      using sc Some NamespacesList
      by (cases decls) (auto simp: StashCache_def load_yaml_def load_new_yaml_def)
    with a b show ?thesis by blast
  next
    case (NamespacesDict entries)
    have ne: "\<forall>item \<in> set (concat (map snd entries)). item \<noteq> AuthzDict []"
      using assms Some NamespacesDict unfolding yaml_authz_items_def by auto
    from load_old_yaml_loop_props [OF ne, of ?init H fmt y]
    obtain sc where sc: "load_old_yaml_loop H fmt y entries ?init = Inr sc"
      "\<forall>q \<in> set (map fst entries). map_of (namespaces sc) q \<noteq> None"
      "\<forall>q n. map_of (namespaces sc) q = Some n \<longrightarrow> NullAuth \<notin> set (authz_list n)"
      by auto
    have "StashCache H fmt vo y = Inr sc"
      using sc(1) Some NamespacesDict
      by (cases entries) (auto simp: StashCache_def load_yaml_def)
    moreover have "\<forall>p \<in> set (yaml_paths y). map_of (namespaces sc) p \<noteq> None"
      using sc(2) Some NamespacesDict by (simp add: yaml_paths_def)
    ultimately show ?thesis using sc(3) by blast
  qed
qed

text \<open>
  C8, as stated, fails.  A VO document with one well-formed namespace and one namespace
  holding an authorization item that does not parse loads into a \<^verbatim>\<open>StashCache\<close> with
  both namespaces and one error string, but \<^verbatim>\<open>VOsData.add_vo\<close> then leaves
  \<^verbatim>\<open>stashcache_by_vo_name\<close> without the VO: the well-formed namespace is not available
  to the generators.
\<close>

theorem bad_entry_drops_whole_vo_counterexample:
  "StashCache ex_hash (\<lambda>i. ''?'') ''vo''
      (ex_yaml [ex_decl ''/good'' [AuthzStr ''FQAN:/vo''], ex_decl ''/bad'' [AuthzStr ''BOGUS'']])
     = Inr \<lparr>sc_vo_name = ''vo'',
            namespaces =
              [(''/good'', declared_namespace ''vo'' ''/good'' (ex_decl ''/good'' [AuthzStr ''FQAN:/vo'']) [FQANAuth ''/vo'']),
               (''/bad'', declared_namespace ''vo'' ''/bad'' (ex_decl ''/bad'' [AuthzStr ''BOGUS'']) [])],
            errors = [''Namespace /bad: Unknown authz list entry BOGUS'']\<rparr>
   \<and> add_vo ex_hash (\<lambda>i. ''?'') \<lparr>vos = [], stashcache_by_vo_name = []\<rparr> ''vo''
      \<lparr>vo_StashCache = Some (ex_yaml [ex_decl ''/good'' [AuthzStr ''FQAN:/vo''],
                                        ex_decl ''/bad'' [AuthzStr ''BOGUS'']])\<rparr>
     = Inr \<lparr>vos = [(''vo'', \<lparr>vo_StashCache = Some (ex_yaml [ex_decl ''/good'' [AuthzStr ''FQAN:/vo''],
                                        ex_decl ''/bad'' [AuthzStr ''BOGUS'']])\<rparr>)],
            stashcache_by_vo_name = []\<rparr>"
  by code_simp

text \<open>An authorization item that is an empty mapping makes the load raise.\<close>

lemma empty_mapping_item_raises:
  "StashCache ex_hash (\<lambda>i. ''?'') ''vo'' (ex_yaml [ex_decl ''/x'' [AuthzDict []]])
     = Inl (TypeError ''cannot unpack non-iterable NoneType object'')"
  by code_simp

text \<open>
  In \<^verbatim>\<open>webapp/data_federation.py\<close> a \<^verbatim>\<open>CredentialGeneration\<close> block that fails
  validation makes the load raise.
\<close>

lemma credential_generation_failure_raises:
  "validate ex_urlparse (CredentialGeneration (ex_cg ''Vault''))
     = Inr [''CredentialGeneration: VaultServer not specified for a Vault strategy'']
   \<and> df_load_new_yaml ex_hash (\<lambda>i. ''?'') ex_urlparse
        [ex_df_decl ''/good'' [AuthzStr ''FQAN:/vo''] None,
         ex_df_decl ''/cg'' [AuthzStr ''FQAN:/vo''] (Some (ex_cg ''Vault''))]
        \<lparr>df_vo_name = ''vo'', df_namespaces = [], df_errors = []\<rparr>
     = Inl (TypeError ''unsupported operand type(s) for +=: set and set'')"
  by code_simp

text \<open>
  C8, amended.  When no authorization item of a VO's document is an empty mapping, the
  load raises nothing and returns a \<^verbatim>\<open>StashCache\<close> that holds every declared path, with
  no \<^verbatim>\<open>NullAuth\<close> in any authz list.  An item that fails to parse, met before any
  Public item of its list, adds its error string to the error set, which only grows,
  and is left out of the parsed list.  \<^verbatim>\<open>VOsData.add_vo\<close> registers the
  \<^verbatim>\<open>StashCache\<close> of a VO for the generators if and only if its error set is empty.
\<close>

theorem parse_failures_accumulate:
  "((\<forall>item \<in> set (yaml_authz_items y). item \<noteq> AuthzDict []) \<longrightarrow>
      (\<exists>sc. StashCache H fmt vo y = Inr sc
         \<and> (\<forall>p \<in> set (yaml_paths y). map_of (namespaces sc) p \<noteq> None)
         \<and> (\<forall>p n. map_of (namespaces sc) p = Some n \<longrightarrow> NullAuth \<notin> set (authz_list n))))
   \<and> (parse_authz_list H fmt p (pre @ item # post) errs = Inr (al, errs') \<longrightarrow>
        (\<forall>x \<in> set pre. \<forall>e. parse_authz H fmt x \<noteq> Some (PublicAuth, e)) \<longrightarrow>
        parse_authz H fmt item = Some (a, Some e) \<longrightarrow> e \<noteq> [] \<longrightarrow>
        (''Namespace '' @ p @ '': '' @ e) \<in> set errs' \<and> set errs \<subseteq> set errs'
        \<and> a = NullAuth \<and> NullAuth \<notin> set al)
   \<and> (StashCache H fmt vo y = Inr sc \<longrightarrow>
        add_vo H fmt self vo \<lparr>vo_StashCache = Some y\<rparr> =
          Inr (if errors sc = []
               then self\<lparr>vos := dict_set vo \<lparr>vo_StashCache = Some y\<rparr> (vos self),
                         stashcache_by_vo_name := dict_set vo sc (stashcache_by_vo_name self)\<rparr>
               else self\<lparr>vos := dict_set vo \<lparr>vo_StashCache = Some y\<rparr> (vos self)\<rparr>))"
proof (intro conjI impI)
  assume "\<forall>item \<in> set (yaml_authz_items y). item \<noteq> AuthzDict []"
  from StashCache_total [OF this]
  show "\<exists>sc. StashCache H fmt vo y = Inr sc
         \<and> (\<forall>p \<in> set (yaml_paths y). map_of (namespaces sc) p \<noteq> None)
         \<and> (\<forall>p n. map_of (namespaces sc) p = Some n \<longrightarrow> NullAuth \<notin> set (authz_list n))" .
next
  assume pl: "parse_authz_list H fmt p (pre @ item # post) errs = Inr (al, errs')"
    and np: "\<forall>x \<in> set pre. \<forall>e. parse_authz H fmt x \<noteq> Some (PublicAuth, e)"
    and pa: "parse_authz H fmt item = Some (a, Some e)" and ne: "e \<noteq> []"
  from pl have l: "parse_authz_list_loop H fmt p (pre @ item # post) [] errs = Inr (al, errs')"
    by (simp add: parse_authz_list_def)
  show "(''Namespace '' @ p @ '': '' @ e) \<in> set errs'"
    using parse_authz_list_loop_error_recorded [OF l np pa ne] .
  show "set errs \<subseteq> set errs'" using parse_authz_list_errors_mono [OF pl] .
  show "a = NullAuth" using parse_authz_null_iff [OF pa] ne by (simp add: truthy_str_def)
  show "NullAuth \<notin> set al" using parse_authz_list_no_null [OF pl] .
next
  assume "StashCache H fmt vo y = Inr sc"
  then show "add_vo H fmt self vo \<lparr>vo_StashCache = Some y\<rparr> =
          Inr (if errors sc = []
               then self\<lparr>vos := dict_set vo \<lparr>vo_StashCache = Some y\<rparr> (vos self),
                         stashcache_by_vo_name := dict_set vo sc (stashcache_by_vo_name self)\<rparr>
               else self\<lparr>vos := dict_set vo \<lparr>vo_StashCache = Some y\<rparr> (vos self)\<rparr>)"
    by (simp add: add_vo_def Let_def)
qed

theorem parse_failures_accumulate_witness:
  "(\<exists>sc. StashCache ex_hash (\<lambda>i. ''?'') ''vo''
            (ex_yaml [ex_decl ''/good'' [AuthzStr ''FQAN:/vo''], ex_decl ''/bad'' [AuthzStr ''BOGUS'']])
          = Inr sc
        \<and> map_of (namespaces sc) ''/good'' \<noteq> None \<and> map_of (namespaces sc) ''/bad'' \<noteq> None)
   \<and> ''Namespace /bad: Unknown authz list entry BOGUS'' \<in> set [''Namespace /bad: Unknown authz list entry BOGUS'']
   \<and> add_vo ex_hash (\<lambda>i. ''?'') \<lparr>vos = [], stashcache_by_vo_name = []\<rparr> ''vo''
        \<lparr>vo_StashCache = Some (ex_yaml [ex_decl ''/good'' [AuthzStr ''FQAN:/vo'']])\<rparr>
      = Inr \<lparr>vos = [(''vo'', \<lparr>vo_StashCache = Some (ex_yaml [ex_decl ''/good'' [AuthzStr ''FQAN:/vo'']])\<rparr>)],
             stashcache_by_vo_name =
               [(''vo'', \<lparr>sc_vo_name = ''vo'',
                   namespaces = [(''/good'', declared_namespace ''vo'' ''/good''
                                    (ex_decl ''/good'' [AuthzStr ''FQAN:/vo'']) [FQANAuth ''/vo''])],
                   errors = []\<rparr>)]\<rparr>"
proof -
  let ?y = "ex_yaml [ex_decl ''/good'' [AuthzStr ''FQAN:/vo''], ex_decl ''/bad'' [AuthzStr ''BOGUS'']]"
  let ?g = "ex_yaml [ex_decl ''/good'' [AuthzStr ''FQAN:/vo'']]"
  let ?sg = "\<lparr>sc_vo_name = ''vo'',
                   namespaces = [(''/good'', declared_namespace ''vo'' ''/good''
                                    (ex_decl ''/good'' [AuthzStr ''FQAN:/vo'']) [FQANAuth ''/vo''])],
                   errors = []\<rparr>"
  have a: "\<forall>item \<in> set (yaml_authz_items ?y). item \<noteq> AuthzDict []"
    by (simp add: yaml_authz_items_def ex_yaml_def ex_decl_def get_default_def)
  have b: "set (yaml_paths ?y) = {''/good'', ''/bad''}"
    by (simp add: yaml_paths_def ex_yaml_def ex_decl_def)
  have c: "parse_authz_list ex_hash (\<lambda>i. ''?'') ''/bad'' ([AuthzStr ''FQAN:/vo''] @ AuthzStr ''BOGUS'' # []) []
      = Inr ([FQANAuth ''/vo''], [''Namespace /bad: Unknown authz list entry BOGUS''])"
    by code_simp
  have d: "\<forall>x \<in> set [AuthzStr ''FQAN:/vo'']. \<forall>e. parse_authz ex_hash (\<lambda>i. ''?'') x \<noteq> Some (PublicAuth, e)"
    by (simp add: parse_authz_def parse_authz_str_def py_startswith_def Let_def)
  have e: "parse_authz ex_hash (\<lambda>i. ''?'') (AuthzStr ''BOGUS'')
      = Some (NullAuth, Some ''Unknown authz list entry BOGUS'')"
    by code_simp
  have f: "StashCache ex_hash (\<lambda>i. ''?'') ''vo'' ?g = Inr ?sg" by code_simp
  note t1 = parse_failures_accumulate [where y = ?y and H = ex_hash and fmt = "\<lambda>i. ''?''" and vo = "''vo''",
      THEN conjunct1, THEN mp, OF a]
  note t2 = parse_failures_accumulate [where H = ex_hash and fmt = "\<lambda>i. ''?''" and p = "''/bad''"
      and pre = "[AuthzStr ''FQAN:/vo'']" and item = "AuthzStr ''BOGUS''" and post = "[]"
      and errs = "[]" and al = "[FQANAuth ''/vo'']"
      and errs' = "[''Namespace /bad: Unknown authz list entry BOGUS'']"
      and a = NullAuth and e = "''Unknown authz list entry BOGUS''",
      THEN conjunct2, THEN conjunct1, THEN mp, OF c, THEN mp, OF d, THEN mp, OF e]
  note t3 = parse_failures_accumulate [where H = ex_hash and fmt = "\<lambda>i. ''?''" and vo = "''vo''"
      and y = ?g and sc = ?sg and self = "\<lparr>vos = [], stashcache_by_vo_name = []\<rparr>",
      THEN conjunct2, THEN conjunct2, THEN mp, OF f]
  from t1 b have c1: "\<exists>sc. StashCache ex_hash (\<lambda>i. ''?'') ''vo'' ?y = Inr sc
        \<and> map_of (namespaces sc) ''/good'' \<noteq> None \<and> map_of (namespaces sc) ''/bad'' \<noteq> None"
    by auto
  from t2 have c2: "''Namespace /bad: Unknown authz list entry BOGUS''
      \<in> set [''Namespace /bad: Unknown authz list entry BOGUS'']" by simp
  from t3 have c3: "add_vo ex_hash (\<lambda>i. ''?'') \<lparr>vos = [], stashcache_by_vo_name = []\<rparr> ''vo''
        \<lparr>vo_StashCache = Some ?g\<rparr>
      = Inr \<lparr>vos = [(''vo'', \<lparr>vo_StashCache = Some ?g\<rparr>)], stashcache_by_vo_name = [(''vo'', ?sg)]\<rparr>"
    by simp
  from c1 c2 c3 show ?thesis by blast
qed

end
